theory Spec2Isabelle
  imports Main
begin

section \<open>Data model (src/graph/graphology-adapter.ts, type declarations)\<close>

text \<open>
  The nine node kinds of \<^verbatim>\<open>NodeType\<close> and the nine relationship kinds of
  \<^verbatim>\<open>EdgeLabel\<close>. \<open>label_text\<close> gives the string each label has in the source; it is
  what the edge key is built from.
\<close>

datatype NodeType =
  Actor | Command | Aggregate | Event | Viewmodel | Preconditions | Guards
  | Branchinglogic | Boundary

datatype EdgeLabel =
  Lbl_issues | Lbl_on | Lbl_then | Lbl_if | Lbl_if_guard | Lbl_if_preconditions
  | Lbl_then_policy | Lbl_supports_decision_for | Lbl_marks_pivotal

fun label_text :: "EdgeLabel \<Rightarrow> string" where
  "label_text Lbl_issues = ''issues''"
| "label_text Lbl_on = ''on''"
| "label_text Lbl_then = ''then''"
| "label_text Lbl_if = ''if''"
| "label_text Lbl_if_guard = ''if guard''"
| "label_text Lbl_if_preconditions = ''if preconditions''"
| "label_text Lbl_then_policy = ''then (policy)''"
| "label_text Lbl_supports_decision_for = ''supports decision for''"
| "label_text Lbl_marks_pivotal = ''marks pivotal''"

text \<open>
  \<^verbatim>\<open>EventStormingNode\<close>: the fields \<^verbatim>\<open>id\<close>, \<^verbatim>\<open>label\<close>, \<^verbatim>\<open>type\<close>, and the optional
  extension fields (description, businessContext, position, ...) as one opaque list of
  field name and value, which no function below interprets. Strings are lists of one-byte
  characters: ids and labels are taken from the Latin-1 range of JavaScript's code units.
\<close>

record EventStormingNode =
  node_id :: string
  node_label :: string
  node_type :: NodeType
  node_ext :: "(string \<times> string) list"

record EventStormingEdge =
  source :: string
  target :: string
  label :: EdgeLabel

text \<open>\<^verbatim>\<open>EventStormingGraph\<close>, the snapshot format \<^verbatim>\<open>{nodes, edges}\<close>.\<close>

record EventStormingGraph =
  nodes :: "EventStormingNode list"
  edges :: "EventStormingEdge list"

text \<open>
  \<^verbatim>\<open>Partial<EventStormingNode>\<close>, the argument of \<^verbatim>\<open>updateNode\<close>: every field may be
  absent, \<^verbatim>\<open>id\<close> and \<^verbatim>\<open>type\<close> included.
\<close>

record NodeUpdates =
  upd_id :: "string option"
  upd_label :: "string option"
  upd_type :: "NodeType option"
  upd_ext :: "(string \<times> string) list"

text \<open>The object spread \<^verbatim>\<open>{ ...currentNode, ...updates }\<close>.\<close>

definition merge_ext :: "(string \<times> string) list \<Rightarrow> (string \<times> string) list \<Rightarrow> (string \<times> string) list" where
  "merge_ext cur upd =
     map (\<lambda>(k, v). (k, (case map_of upd k of Some v' \<Rightarrow> v' | None \<Rightarrow> v))) cur
     @ filter (\<lambda>(k, v). map_of cur k = None) upd"

definition spread :: "EventStormingNode \<Rightarrow> NodeUpdates \<Rightarrow> EventStormingNode" where
  "spread cur upd =
     \<lparr> node_id = (case upd_id upd of Some i \<Rightarrow> i | None \<Rightarrow> node_id cur),
       node_label = (case upd_label upd of Some l \<Rightarrow> l | None \<Rightarrow> node_label cur),
       node_type = (case upd_type upd of Some t \<Rightarrow> t | None \<Rightarrow> node_type cur),
       node_ext = merge_ext (node_ext cur) (upd_ext upd) \<rparr>"

text \<open>
  The messages of a \<^verbatim>\<open>ValidationResult\<close>, one constructor per message template of the
  source, carrying the interpolated values:
  \<^item> \<open>NodeAlreadyExists i\<close>: "Node with ID 'i' already exists"
  \<^item> \<open>NodeNotFound i\<close>: "Node with ID 'i' not found"
  \<^item> \<open>NodeIdEmpty\<close>: "Node ID cannot be empty"
  \<^item> \<open>NodeLabelEmpty\<close>: "Node label cannot be empty"
  \<^item> \<open>IdNotKebabCase i\<close>: "Node ID 'i' should use kebab-case format ..."
  \<^item> \<open>InvalidNodeType t\<close>: "Invalid node type 't'. Must be one of: ..."
  \<^item> \<open>SourceNotFound i\<close>, \<open>TargetNotFound i\<close>: "Source node 'i' not found", "Target node 'i' not found"
  \<^item> \<open>InvalidEdge s l t\<close>: "Invalid edge: s --l--> t. Valid combinations for 'l': ..."
  \<^item> \<open>EdgeAlreadyExists s l t\<close>: "Edge already exists: s --l--> t"
  \<^item> \<open>EdgeNotFound s l t\<close>: "Edge not found: s --l--> t"
  \<^item> \<open>OrphanedNodes ls\<close>: "Orphaned nodes found: l1, l2, ..."
  \<^item> \<open>CommandWithoutEvent l\<close>: "Command 'l' must generate at least one event"
  \<^item> \<open>EventWithoutCommand l\<close>: "Event 'l' is not generated by any command"
  \<^item> \<open>MissingNodesArray\<close>, \<open>MissingEdgesArray\<close>: "Invalid JSON: missing or invalid nodes/edges array"
  \<^item> \<open>FailedToParse\<close>: "Failed to parse JSON: ..."
\<close>

datatype Message =
  NodeAlreadyExists string
  | NodeNotFound string
  | NodeIdEmpty
  | NodeLabelEmpty
  | IdNotKebabCase string
  | InvalidNodeType NodeType
  | SourceNotFound string
  | TargetNotFound string
  | InvalidEdge NodeType EdgeLabel NodeType
  | EdgeAlreadyExists string EdgeLabel string
  | EdgeNotFound string EdgeLabel string
  | OrphanedNodes "string list"
  | CommandWithoutEvent string
  | EventWithoutCommand string
  | MissingNodesArray
  | MissingEdgesArray
  | FailedToParse

record ValidationResult =
  isValid :: bool
  errors :: "Message list"
  warnings :: "Message list"

section \<open>The Graphology store\<close>

text \<open>
  \<^verbatim>\<open>new Graph({ type: 'directed', multi: false })\<close>. Graphology is a dependency of the
  repository; what the adapter uses of it is written out here. The graph keeps a map from
  node key to node data and a map from edge key to edge data, both a JavaScript \<^verbatim>\<open>Map\<close>,
  so both in insertion order. Every call of \<^verbatim>\<open>addEdgeWithKey\<close> in the adapter passes
  \<^verbatim>\<open>edge.source\<close> and \<^verbatim>\<open>edge.target\<close> as the endpoints and the edge object as the
  attributes, so an edge is stored as its key and its attributes, and its endpoints are
  read from the attributes.

  The adjacency of a node is kept in two plain objects of its node data: \<^verbatim>\<open>out\<close>, from
  the key of an out-neighbour to the edge data, and \<^verbatim>\<open>in\<close>, from the key of an
  in-neighbour to the edge data. A plain object inherits from \<^verbatim>\<open>Object.prototype\<close>, and
  three things follow that the model carries.
  \<^item> A read \<^verbatim>\<open>out[target]\<close> is defined not only where an edge links the node to the target
    but also where the target is the name of a member of \<^verbatim>\<open>Object.prototype\<close>
    (\<open>object_prototype_members\<close>).
  \<^item> The assignment \<^verbatim>\<open>in['__proto__'] = edgeData\<close>, made when an edge whose source has
    the key \<^verbatim>\<open>__proto__\<close> is attached, adds no property to the \<^verbatim>\<open>in\<close> object of the
    target: it makes the edge data the prototype of that object, and a later
    \<^verbatim>\<open>delete in['__proto__']\<close> does not undo it. \<open>g_in_proto\<close> lists the keys of the
    nodes to which this has happened; the \<^verbatim>\<open>out\<close> objects are never affected, since no
    edge is ever attached to a target of that name.
  \<^item> The keys of a plain object are enumerated with those that are array indices first, in
    ascending numeric order, and the others after them in the order they were added
    (\<open>own_keys\<close>).

  The library raises an exception where the adapter has not excluded the case:
  \<^verbatim>\<open>addNode\<close> on a key that is present; \<^verbatim>\<open>addEdgeWithKey\<close> on a missing endpoint, on a
  key that is present, and (since \<^verbatim>\<open>multi\<close> is false) where \<^verbatim>\<open>out[target]\<close> of the
  source is defined; and \<^verbatim>\<open>dropNode\<close> on a node whose \<^verbatim>\<open>in\<close> object has an edge data
  as its prototype, with JavaScript's \<^verbatim>\<open>TypeError\<close>.
\<close>

datatype Exception = NotFoundGraphError | UsageGraphError | TypeError

record Graph =
  g_nodes :: "(string \<times> EventStormingNode) list"
  g_edges :: "(string \<times> EventStormingEdge) list"
  g_in_proto :: "string list"

definition graph_new :: Graph where
  "graph_new = \<lparr> g_nodes = [], g_edges = [], g_in_proto = [] \<rparr>"

definition graph_clear :: "Graph \<Rightarrow> Graph" where
  "graph_clear g = \<lparr> g_nodes = [], g_edges = [], g_in_proto = [] \<rparr>"

definition graph_hasNode :: "Graph \<Rightarrow> string \<Rightarrow> bool" where
  "graph_hasNode g k = (map_of (g_nodes g) k \<noteq> None)"

definition graph_getNodeAttributes :: "Graph \<Rightarrow> string \<Rightarrow> EventStormingNode option" where
  "graph_getNodeAttributes g k = map_of (g_nodes g) k"

definition graph_addNode :: "Graph \<Rightarrow> string \<Rightarrow> EventStormingNode \<Rightarrow> Exception + Graph" where
  "graph_addNode g k n =
     (if graph_hasNode g k then Inl UsageGraphError
      else Inr (g\<lparr> g_nodes := g_nodes g @ [(k, n)] \<rparr>))"

definition graph_replaceNodeAttributes :: "Graph \<Rightarrow> string \<Rightarrow> EventStormingNode \<Rightarrow> Graph" where
  "graph_replaceNodeAttributes g k n =
     g\<lparr> g_nodes := map (\<lambda>(k', n'). if k' = k then (k', n) else (k', n')) (g_nodes g) \<rparr>"

definition graph_hasEdge :: "Graph \<Rightarrow> string \<Rightarrow> bool" where
  "graph_hasEdge g key = (map_of (g_edges g) key \<noteq> None)"

text \<open>
  The names of the members of \<^verbatim>\<open>Object.prototype\<close>, and the test
  \<^verbatim>\<open>typeof sourceData.out[target] !== 'undefined'\<close> of \<^verbatim>\<open>addEdgeWithKey\<close>.
\<close>

definition object_prototype_members :: "string list" where
  "object_prototype_members =
     [''constructor'', ''__defineGetter__'', ''__defineSetter__'', ''hasOwnProperty'',
      ''__lookupGetter__'', ''__lookupSetter__'', ''isPrototypeOf'', ''propertyIsEnumerable'',
      ''toString'', ''valueOf'', ''__proto__'', ''toLocaleString'']"

definition graph_outDefined :: "Graph \<Rightarrow> string \<Rightarrow> string \<Rightarrow> bool" where
  "graph_outDefined g s t =
     (t \<in> set object_prototype_members
      \<or> list_ex (\<lambda>(key, e). source e = s \<and> target e = t) (g_edges g))"

text \<open>
  \<^verbatim>\<open>addEdgeWithKey\<close>. Attaching the edge assigns \<^verbatim>\<open>out[target]\<close> of the source and
  \<^verbatim>\<open>in[source]\<close> of the target; where the source is \<^verbatim>\<open>__proto__\<close> the second assignment
  changes the prototype of the target's \<^verbatim>\<open>in\<close> object.
\<close>

definition graph_addEdgeWithKey :: "Graph \<Rightarrow> string \<Rightarrow> EventStormingEdge \<Rightarrow> Exception + Graph" where
  "graph_addEdgeWithKey g key e =
     (if \<not> graph_hasNode g (source e) \<or> \<not> graph_hasNode g (target e) then Inl NotFoundGraphError
      else if graph_hasEdge g key then Inl UsageGraphError
      else if graph_outDefined g (source e) (target e) then Inl UsageGraphError
      else Inr (g\<lparr> g_edges := g_edges g @ [(key, e)],
                   g_in_proto := (if source e = ''__proto__'' then List.insert (target e) (g_in_proto g)
                                  else g_in_proto g) \<rparr>))"

definition graph_dropEdge :: "Graph \<Rightarrow> string \<Rightarrow> Graph" where
  "graph_dropEdge g key = g\<lparr> g_edges := filter (\<lambda>(key', e). key' \<noteq> key) (g_edges g) \<rparr>"

text \<open>
  \<^verbatim>\<open>dropNode\<close> walks the \<^verbatim>\<open>out\<close> object of the node with \<^verbatim>\<open>for ... in\<close> and drops every
  edge it finds, then walks the \<^verbatim>\<open>in\<close> object in the same way, then deletes the node.
  \<^verbatim>\<open>for ... in\<close> visits the own keys of an object and then the enumerable properties it
  inherits. The \<^verbatim>\<open>in\<close> object of a node has inherited enumerable properties exactly when
  an edge data has become its prototype (\<open>graph_inInherits\<close>: an edge from \<^verbatim>\<open>__proto__\<close>
  is or has been attached to the node). The walk then comes, after the own keys, to an
  inherited property, first of all \<^verbatim>\<open>key\<close>, the first property of the edge data; it
  takes the string stored there for an edge data and raises \<^verbatim>\<open>TypeError\<close> on reading
  the degree counter of its source, which is undefined. By then the out-edges of the node
  and the in-edges stored under own keys are dropped; the node and an edge from
  \<^verbatim>\<open>__proto__\<close> are still there: \<open>Inl (err, g)\<close> carries that graph.

  An own key hides an inherited property of the same name from the walk, and the walk
  raises at the first one that is not hidden, whichever it is. The model takes one of
  them not to be hidden: a node whose in-neighbours are stored under every name among
  \<^verbatim>\<open>key\<close>, \<^verbatim>\<open>attributes\<close>, \<^verbatim>\<open>undirected\<close>, \<^verbatim>\<open>source\<close>, \<^verbatim>\<open>target\<close>, \<^verbatim>\<open>attach\<close>,
  \<^verbatim>\<open>attachMulti\<close>, \<^verbatim>\<open>detach\<close> and \<^verbatim>\<open>detachMulti\<close> at once is outside of it.
\<close>

definition graph_inInherits :: "Graph \<Rightarrow> string \<Rightarrow> bool" where
  "graph_inInherits g k =
     (k \<in> set (g_in_proto g)
      \<or> list_ex (\<lambda>(key, e). source e = ''__proto__'' \<and> target e = k) (g_edges g))"

definition graph_dropNode :: "Graph \<Rightarrow> string \<Rightarrow> (Exception \<times> Graph) + Graph" where
  "graph_dropNode g k =
     (let walked = filter (\<lambda>(key, e). source e \<noteq> k \<and> (target e \<noteq> k \<or> source e = ''__proto__''))
                     (g_edges g)
      in if graph_inInherits g k then Inl (TypeError, g\<lparr> g_edges := walked \<rparr>)
         else Inr (g\<lparr> g_nodes := filter (\<lambda>(k', n). k' \<noteq> k) (g_nodes g), g_edges := walked \<rparr>))"

text \<open>
  Iteration. \<^verbatim>\<open>forEachNode\<close> and \<^verbatim>\<open>forEachEdge\<close> follow the insertion order of the two
  maps. \<^verbatim>\<open>forEachOutNeighbor\<close> and \<^verbatim>\<open>forEachOutEdge\<close> walk the \<^verbatim>\<open>out\<close> object of the
  node: its keys are the targets of the out-edges of the node, each once, in the order of
  the keys of a plain object, and under each key is the edge to that target.
  \<open>array_index\<close> gives the number a key stands for when it is
  an array index: a decimal numeral without a leading zero, below \<open>2^32 - 1\<close>, which is
  4294967295; the bound is tested on the digits.
\<close>

definition digit :: "char \<Rightarrow> nat option" where
  "digit c = map_of (zip ''0123456789'' [0, 1, 2, 3, 4, 5, 6, 7, 8, 9]) c"

fun digits_less :: "nat list \<Rightarrow> nat list \<Rightarrow> bool" where
  "digits_less (x # xs) (y # ys) = (x < y \<or> (x = y \<and> digits_less xs ys))"
| "digits_less xs ys = False"

definition array_index :: "string \<Rightarrow> nat option" where
  "array_index s =
     (if s = [] \<or> (hd s = CHR ''0'' \<and> s \<noteq> ''0'') then None
      else (case those (map digit s) of
              None \<Rightarrow> None
            | Some ds \<Rightarrow>
                if length ds < 10 \<or> (length ds = 10 \<and> digits_less ds [4, 2, 9, 4, 9, 6, 7, 2, 9, 5])
                then Some (foldl (\<lambda>a d. 10 * a + d) 0 ds)
                else None))"

definition own_keys :: "string list \<Rightarrow> string list" where
  "own_keys ks =
     sort_key (\<lambda>k. case array_index k of Some n \<Rightarrow> n | None \<Rightarrow> 0)
       (filter (\<lambda>k. array_index k \<noteq> None) ks)
     @ filter (\<lambda>k. array_index k = None) ks"

definition graph_outNeighbors :: "Graph \<Rightarrow> string \<Rightarrow> string list" where
  "graph_outNeighbors g k =
     own_keys (rev (remdups (rev (map target (filter (\<lambda>e. source e = k) (map snd (g_edges g)))))))"

definition graph_outEdges :: "Graph \<Rightarrow> string \<Rightarrow> EventStormingEdge list" where
  "graph_outEdges g k =
     concat (map (\<lambda>t. filter (\<lambda>e. source e = k \<and> target e = t) (map snd (g_edges g)))
               (graph_outNeighbors g k))"

section \<open>GraphologyAdapter\<close>

text \<open>
  The adapter's methods, each taking the graph it holds and returning the graph it leaves.
  A result \<open>Inl err\<close> or \<open>Inl (err, g)\<close> is an exception of the library leaving the
  method, \<open>g\<close> being the graph it leaves where the library has changed it before
  raising.
\<close>

definition edgeKey :: "string \<Rightarrow> EdgeLabel \<Rightarrow> string \<Rightarrow> string" where
  "edgeKey s l t = s @ ''-'' @ label_text l @ ''-'' @ t"

definition adapter_hasNode :: "Graph \<Rightarrow> string \<Rightarrow> bool" where
  "adapter_hasNode g nodeId = graph_hasNode g nodeId"

definition adapter_getNode :: "Graph \<Rightarrow> string \<Rightarrow> EventStormingNode option" where
  "adapter_getNode g nodeId =
     (if \<not> graph_hasNode g nodeId then None else graph_getNodeAttributes g nodeId)"

definition adapter_addNode :: "Graph \<Rightarrow> EventStormingNode \<Rightarrow> Exception + (bool \<times> Graph)" where
  "adapter_addNode g node =
     (if graph_hasNode g (node_id node) then Inr (False, g)
      else (case graph_addNode g (node_id node) node of
              Inl err \<Rightarrow> Inl err
            | Inr g' \<Rightarrow> Inr (True, g')))"

definition adapter_updateNode :: "Graph \<Rightarrow> string \<Rightarrow> NodeUpdates \<Rightarrow> bool \<times> Graph" where
  "adapter_updateNode g nodeId updates =
     (case graph_getNodeAttributes g nodeId of
        None \<Rightarrow> (False, g)
      | Some currentNode \<Rightarrow>
          (True, graph_replaceNodeAttributes g nodeId (spread currentNode updates)))"

definition adapter_removeNode :: "Graph \<Rightarrow> string \<Rightarrow> (Exception \<times> Graph) + (bool \<times> Graph)" where
  "adapter_removeNode g nodeId =
     (if \<not> graph_hasNode g nodeId then Inr (False, g)
      else (case graph_dropNode g nodeId of
              Inl raised \<Rightarrow> Inl raised
            | Inr g' \<Rightarrow> Inr (True, g')))"

definition adapter_addEdge :: "Graph \<Rightarrow> EventStormingEdge \<Rightarrow> Exception + (bool \<times> Graph)" where
  "adapter_addEdge g edge =
     (let edgeKey = edgeKey (source edge) (label edge) (target edge) in
      if graph_hasEdge g edgeKey then Inr (False, g)
      else if \<not> graph_hasNode g (source edge) \<or> \<not> graph_hasNode g (target edge)
        then Inr (False, g)
      else (case graph_addEdgeWithKey g edgeKey edge of
              Inl err \<Rightarrow> Inl err
            | Inr g' \<Rightarrow> Inr (True, g')))"

definition adapter_removeEdge :: "Graph \<Rightarrow> string \<Rightarrow> string \<Rightarrow> EdgeLabel \<Rightarrow> bool \<times> Graph" where
  "adapter_removeEdge g src tgt lbl =
     (let edgeKey = edgeKey src lbl tgt in
      if \<not> graph_hasEdge g edgeKey then (False, g) else (True, graph_dropEdge g edgeKey))"

definition filterNodes :: "Graph \<Rightarrow> (EventStormingNode \<Rightarrow> bool) \<Rightarrow> EventStormingNode list" where
  "filterNodes g predicate = filter predicate (map snd (g_nodes g))"

definition filterEdges :: "Graph \<Rightarrow> (EventStormingEdge \<Rightarrow> bool) \<Rightarrow> EventStormingEdge list" where
  "filterEdges g predicate = filter predicate (map snd (g_edges g))"

definition getNodesByType :: "Graph \<Rightarrow> NodeType \<Rightarrow> EventStormingNode list" where
  "getNodesByType g ty = filter (\<lambda>node. node_type node = ty) (map snd (g_nodes g))"

text \<open>
  \<^verbatim>\<open>loadFromEventStormingData\<close>: the graph is cleared, every node of the snapshot is
  added under its \<^verbatim>\<open>id\<close> (the library raises on an id that is already present), then
  every edge whose endpoints are present and whose key is new is added (the library raises
  when an edge of another key already links the two nodes, and when the target is the
  name of a member of \<^verbatim>\<open>Object.prototype\<close>). An exception leaves the nodes and edges
  added so far in the graph: \<open>Inl (err, g)\<close> carries that graph.
\<close>

fun load_nodes :: "Graph \<Rightarrow> EventStormingNode list \<Rightarrow> (Exception \<times> Graph) + Graph" where
  "load_nodes g [] = Inr g"
| "load_nodes g (node # rest) =
     (case graph_addNode g (node_id node) node of
        Inl err \<Rightarrow> Inl (err, g)
      | Inr g' \<Rightarrow> load_nodes g' rest)"

fun load_edges :: "Graph \<Rightarrow> EventStormingEdge list \<Rightarrow> (Exception \<times> Graph) + Graph" where
  "load_edges g [] = Inr g"
| "load_edges g (edge # rest) =
     (if graph_hasNode g (source edge) \<and> graph_hasNode g (target edge) then
        (let edgeKey = edgeKey (source edge) (label edge) (target edge) in
         if \<not> graph_hasEdge g edgeKey then
           (case graph_addEdgeWithKey g edgeKey edge of
              Inl err \<Rightarrow> Inl (err, g)
            | Inr g' \<Rightarrow> load_edges g' rest)
         else load_edges g rest)
      else load_edges g rest)"

definition loadFromEventStormingData :: "Graph \<Rightarrow> EventStormingGraph \<Rightarrow> (Exception \<times> Graph) + Graph" where
  "loadFromEventStormingData g data =
     (case load_nodes (graph_clear g) (nodes data) of
        Inl failure \<Rightarrow> Inl failure
      | Inr g' \<Rightarrow> load_edges g' (edges data))"


section \<open>EventStormingAPI: validation\<close>

text \<open>
  \<^verbatim>\<open>!node.id || node.id.trim() === ''\<close> holds exactly when every character of the string
  is white space (the empty string included). The white-space characters of
  \<^verbatim>\<open>String.prototype.trim\<close> that a one-byte character can be: tab, line feed, vertical
  tab, form feed, carriage return, space and no-break space.
\<close>

definition is_whitespace :: "char \<Rightarrow> bool" where
  "is_whitespace c = (c \<in> set [CHR 0x09, CHR 0x0A, CHR 0x0B, CHR 0x0C, CHR 0x0D, CHR 0x20, CHR 0xA0])"

definition blank :: "string \<Rightarrow> bool" where
  "blank s = list_all is_whitespace s"

text \<open>\<^verbatim>\<open>/^[a-z0-9\-_]+$/.test(id)\<close>.\<close>

definition kebab_char :: "char \<Rightarrow> bool" where
  "kebab_char c = (c \<in> set ''abcdefghijklmnopqrstuvwxyz0123456789-_'')"

definition kebab_case :: "string \<Rightarrow> bool" where
  "kebab_case s = (s \<noteq> [] \<and> list_all kebab_char s)"

definition validTypes :: "NodeType list" where
  "validTypes = [Actor, Command, Aggregate, Event, Viewmodel, Preconditions, Guards, Branchinglogic]"

definition validateNode :: "EventStormingNode \<Rightarrow> ValidationResult" where
  "validateNode node =
     (let errors =
            (if blank (node_id node) then [NodeIdEmpty] else [])
            @ (if blank (node_label node) then [NodeLabelEmpty] else [])
            @ (if node_type node \<notin> set validTypes then [InvalidNodeType (node_type node)] else []);
          warnings =
            (if node_id node \<noteq> [] \<and> \<not> kebab_case (node_id node)
             then [IdNotKebabCase (node_id node)] else [])
      in \<lparr> isValid = (errors = []), errors = errors, warnings = warnings \<rparr>)"

fun validCombinations :: "EdgeLabel \<Rightarrow> (NodeType \<times> NodeType) list" where
  "validCombinations Lbl_issues = [(Actor, Command)]"
| "validCombinations Lbl_on = [(Command, Aggregate)]"
| "validCombinations Lbl_then = [(Command, Event)]"
| "validCombinations Lbl_if = [(Event, Branchinglogic)]"
| "validCombinations Lbl_if_guard = [(Command, Guards)]"
| "validCombinations Lbl_if_preconditions = [(Command, Preconditions)]"
| "validCombinations Lbl_then_policy = [(Event, Command)]"
| "validCombinations Lbl_supports_decision_for = [(Viewmodel, Command)]"
| "validCombinations Lbl_marks_pivotal = [(Event, Boundary)]"

definition isValidCombination :: "EdgeLabel \<Rightarrow> NodeType \<Rightarrow> NodeType \<Rightarrow> bool" where
  "isValidCombination lbl st tt =
     list_ex (\<lambda>(s, t). s = st \<and> t = tt) (validCombinations lbl)"

definition validateEdge :: "EventStormingEdge \<Rightarrow> EventStormingNode \<Rightarrow> EventStormingNode \<Rightarrow> ValidationResult" where
  "validateEdge edge sourceNode targetNode =
     (let errors =
            (if \<not> isValidCombination (label edge) (node_type sourceNode) (node_type targetNode)
             then [InvalidEdge (node_type sourceNode) (label edge) (node_type targetNode)]
             else [])
      in \<lparr> isValid = (errors = []), errors = errors, warnings = [] \<rparr>)"

section \<open>EventStormingAPI: mutations\<close>

text \<open>
  Each mutation returns its \<^verbatim>\<open>ValidationResult\<close> and the graph it leaves;
  \<open>Inl (err, g)\<close> is an exception of the library that leaves the method, with the graph
  it leaves: the graph as it was, but for \<open>removeNode\<close>, where \<^verbatim>\<open>dropNode\<close> has dropped
  edges before it raises.
  \<^verbatim>\<open>getNode\<close> gives \<^verbatim>\<open>null\<close> exactly when \<^verbatim>\<open>hasNode\<close> is false, so in \<open>updateNode\<close>
  the test \<^verbatim>\<open>!hasNode(id)\<close> and the read \<^verbatim>\<open>getNode(id)!\<close> are one case distinction.
\<close>

definition failure :: "Message \<Rightarrow> ValidationResult" where
  "failure msg = \<lparr> isValid = False, errors = [msg], warnings = [] \<rparr>"

definition success :: "Message list \<Rightarrow> ValidationResult" where
  "success ws = \<lparr> isValid = True, errors = [], warnings = ws \<rparr>"

definition addNode :: "Graph \<Rightarrow> EventStormingNode \<Rightarrow> (Exception \<times> Graph) + (ValidationResult \<times> Graph)" where
  "addNode g node =
     (if adapter_hasNode g (node_id node) then Inr (failure (NodeAlreadyExists (node_id node)), g)
      else
        (let validation = validateNode node in
         if \<not> isValid validation then Inr (validation, g)
         else (case adapter_addNode g node of
                 Inl err \<Rightarrow> Inl (err, g)
               | Inr (added, g') \<Rightarrow> Inr (success (warnings validation), g'))))"

definition updateNode :: "Graph \<Rightarrow> string \<Rightarrow> NodeUpdates \<Rightarrow> (Exception \<times> Graph) + (ValidationResult \<times> Graph)" where
  "updateNode g i updates =
     (case adapter_getNode g i of
        None \<Rightarrow> Inr (failure (NodeNotFound i), g)
      | Some currentNode \<Rightarrow>
          (let updatedNode = spread currentNode updates;
               validation = validateNode updatedNode in
           if \<not> isValid validation then Inr (validation, g)
           else Inr (success (warnings validation), snd (adapter_updateNode g i updates))))"

definition removeNode :: "Graph \<Rightarrow> string \<Rightarrow> (Exception \<times> Graph) + (ValidationResult \<times> Graph)" where
  "removeNode g i =
     (if \<not> adapter_hasNode g i then Inr (failure (NodeNotFound i), g)
      else (case adapter_removeNode g i of
              Inl raised \<Rightarrow> Inl raised
            | Inr (removed, g') \<Rightarrow> Inr (success [], g')))"

definition addEdge :: "Graph \<Rightarrow> EventStormingEdge \<Rightarrow> (Exception \<times> Graph) + (ValidationResult \<times> Graph)" where
  "addEdge g edge =
     (case adapter_getNode g (source edge) of
        None \<Rightarrow> Inr (failure (SourceNotFound (source edge)), g)
      | Some sourceNode \<Rightarrow>
          (case adapter_getNode g (target edge) of
             None \<Rightarrow> Inr (failure (TargetNotFound (target edge)), g)
           | Some targetNode \<Rightarrow>
               (let validation = validateEdge edge sourceNode targetNode in
                if \<not> isValid validation then Inr (validation, g)
                else (case adapter_addEdge g edge of
                        Inl err \<Rightarrow> Inl (err, g)
                      | Inr (added, g') \<Rightarrow>
                          if \<not> added
                          then Inr (failure (EdgeAlreadyExists (source edge) (label edge) (target edge)), g')
                          else Inr (success (warnings validation), g')))))"

definition removeEdge :: "Graph \<Rightarrow> string \<Rightarrow> string \<Rightarrow> EdgeLabel \<Rightarrow> (Exception \<times> Graph) + (ValidationResult \<times> Graph)" where
  "removeEdge g src tgt lbl =
     (case adapter_removeEdge g src tgt lbl of
        (removed, g') \<Rightarrow>
          if \<not> removed then Inr (failure (EdgeNotFound src lbl tgt), g')
          else Inr (success [], g'))"

text \<open>One mutation of the five, for statements about "every mutation".\<close>

datatype Mutation =
  AddNode EventStormingNode
  | UpdateNode string NodeUpdates
  | RemoveNode string
  | AddEdge EventStormingEdge
  | RemoveEdge string string EdgeLabel

fun mutate :: "Graph \<Rightarrow> Mutation \<Rightarrow> (Exception \<times> Graph) + (ValidationResult \<times> Graph)" where
  "mutate g (AddNode node) = addNode g node"
| "mutate g (UpdateNode i updates) = updateNode g i updates"
| "mutate g (RemoveNode i) = removeNode g i"
| "mutate g (AddEdge edge) = addEdge g edge"
| "mutate g (RemoveEdge src tgt lbl) = removeEdge g src tgt lbl"

text \<open>
  A run of mutations from a graph, each applied to the graph the one before left,
  whatever its result; an exception ends the run.
\<close>

fun mutate_all :: "Graph \<Rightarrow> Mutation list \<Rightarrow> (Exception \<times> Graph) + Graph" where
  "mutate_all g [] = Inr g"
| "mutate_all g (m # ms) =
     (case mutate g m of Inl raised \<Rightarrow> Inl raised | Inr (r, g') \<Rightarrow> mutate_all g' ms)"

section \<open>EventStormingAPI: graph validation and import\<close>

text \<open>
  \<^verbatim>\<open>validateGraph\<close>. \<open>connectedNodeIds\<close> is the set of all edge endpoints; the orphan
  warning is pushed first, then one error per command without a then edge, then one
  warning per event without an incoming then edge.
\<close>

definition validateGraph :: "Graph \<Rightarrow> ValidationResult" where
  "validateGraph g =
     (let allEdges = filterEdges g (\<lambda>edge. True);
          connectedNodeIds = concat (map (\<lambda>edge. [source edge, target edge]) allEdges);
          allNodes = filterNodes g (\<lambda>node. True);
          orphanedNodes = filter (\<lambda>node. node_id node \<notin> set connectedNodeIds) allNodes;
          orphanWarnings =
            (if orphanedNodes \<noteq> [] then [OrphanedNodes (map node_label orphanedNodes)] else []);
          commands = getNodesByType g Command;
          errors =
            map (\<lambda>command. CommandWithoutEvent (node_label command))
              (filter (\<lambda>command.
                   \<not> list_ex (\<lambda>edge. source edge = node_id command \<and> label edge = Lbl_then) allEdges)
                 commands);
          events = getNodesByType g Event;
          eventWarnings =
            map (\<lambda>event. EventWithoutCommand (node_label event))
              (filter (\<lambda>event.
                   \<not> list_ex (\<lambda>edge. target edge = node_id event \<and> label edge = Lbl_then) allEdges)
                 events)
      in \<lparr> isValid = (errors = []), errors = errors, warnings = orphanWarnings @ eventWarnings \<rparr>)"

text \<open>
  \<^verbatim>\<open>importFromJSON\<close> takes the outcome of \<^verbatim>\<open>JSON.parse\<close> on its argument: the parse
  raised, or gave \<^verbatim>\<open>null\<close> so that reading \<^verbatim>\<open>data.nodes\<close> raises (\<open>SyntaxError\<close>), or it
  gave a value whose \<^verbatim>\<open>nodes\<close> and \<^verbatim>\<open>edges\<close> are each an array of nodes or edges
  (\<open>Some\<close>) or missing or not an array (\<open>None\<close>). The method catches every exception,
  the library's included, and reports it as "Failed to parse JSON".
\<close>

datatype ParsedJSON =
  SyntaxError
  | Parsed "EventStormingNode list option" "EventStormingEdge list option"

definition importFromJSON :: "Graph \<Rightarrow> ParsedJSON \<Rightarrow> ValidationResult \<times> Graph" where
  "importFromJSON g parsed =
     (case parsed of
        SyntaxError \<Rightarrow> (failure FailedToParse, g)
      | Parsed None es \<Rightarrow> (failure MissingNodesArray, g)
      | Parsed (Some ns) None \<Rightarrow> (failure MissingEdgesArray, g)
      | Parsed (Some ns) (Some es) \<Rightarrow>
          (case loadFromEventStormingData g \<lparr> nodes = ns, edges = es \<rparr> of
             Inl (err, g') \<Rightarrow> (failure FailedToParse, g')
           | Inr g' \<Rightarrow>
               (let validation = validateGraph g' in
                (\<lparr> isValid = True, errors = [], warnings = warnings validation \<rparr>, g'))))"

section \<open>GraphologyAdapter: neighbours, paths and impact\<close>

text \<open>
  \<^verbatim>\<open>getOutNeighborsByLabel\<close>: the attributes of the target of every out-edge with the
  label. The library keeps both endpoints of a stored edge among the nodes, so the lookup
  of a target's attributes finds them; a target without attributes contributes nothing.
\<close>

definition getOutNeighborsByLabel :: "Graph \<Rightarrow> string \<Rightarrow> EdgeLabel \<Rightarrow> EventStormingNode list" where
  "getOutNeighborsByLabel g nodeId lbl =
     (if \<not> graph_hasNode g nodeId then []
      else List.map_filter
             (\<lambda>edge. if label edge = lbl then graph_getNodeAttributes g (target edge) else None)
             (graph_outEdges g nodeId))"

text \<open>
  \<^verbatim>\<open>findAllPaths\<close>. The inner \<^verbatim>\<open>dfs\<close> marks the current node visited, recurses into
  every out-neighbour and unmarks it, so the visited set it leaves is the one it found:
  it is passed down, and the paths found are returned in the order they are pushed.
\<close>

function dfs :: "Graph \<Rightarrow> string \<Rightarrow> nat \<Rightarrow> string list \<Rightarrow> string \<Rightarrow> string list \<Rightarrow> string list list" where
  "dfs g targetId maxLength visited currentId path =
     (if length path > maxLength then []
      else if currentId = targetId then [path @ [currentId]]
      else if currentId \<in> set visited then []
      else concat (map (\<lambda>neighbor. dfs g targetId maxLength (currentId # visited) neighbor (path @ [currentId]))
                     (graph_outNeighbors g currentId)))"
  by pat_completeness auto
termination
  by (relation "measure (\<lambda>(g, targetId, maxLength, visited, currentId, path). Suc maxLength - length path)") auto

declare dfs.simps [simp del]

definition findAllPaths :: "Graph \<Rightarrow> string \<Rightarrow> string \<Rightarrow> nat \<Rightarrow> string list list" where
  "findAllPaths g sourceId targetId maxLength =
     (if \<not> graph_hasNode g sourceId \<or> \<not> graph_hasNode g targetId then []
      else dfs g targetId maxLength [] sourceId [])"

text \<open>
  \<^verbatim>\<open>getImpactAnalysis\<close>. A \<^verbatim>\<open>Set\<close> is a list without repetition in insertion order;
  \<open>set_add\<close> is \<^verbatim>\<open>Set.prototype.add\<close>. \<open>bfs\<close> is the \<^verbatim>\<open>while (queue.length > 0)\<close> loop,
  returning the sets \<^verbatim>\<open>visited\<close> and \<^verbatim>\<open>allReachable\<close> it leaves.
\<close>

definition set_add :: "string list \<Rightarrow> string \<Rightarrow> string list" where
  "set_add xs x = (if x \<in> set xs then xs else xs @ [x])"

function bfs :: "Graph \<Rightarrow> string list \<Rightarrow> string list \<Rightarrow> string list \<Rightarrow> string list \<times> string list" where
  "bfs g [] visited allReachable = (visited, allReachable)"
| "bfs g (current # queue) visited allReachable =
     (if current \<in> set visited then bfs g queue visited allReachable
      else bfs g
             (queue @ filter (\<lambda>neighbor. neighbor \<notin> set (set_add visited current))
                        (graph_outNeighbors g current))
             (set_add visited current)
             (set_add allReachable current))"
  by pat_completeness auto
termination
proof (relation "measures
    [\<lambda>(g, queue, visited, allReachable).
        card ((set (map (target \<circ> snd) (g_edges g)) \<union> set queue) - set visited),
     \<lambda>(g, queue, visited, allReachable). length queue]")
  show "wf (measures
    [\<lambda>(g, queue, visited, allReachable).
        card ((set (map (target \<circ> snd) (g_edges g)) \<union> set queue) - set visited),
     \<lambda>(g, queue, visited, allReachable). length queue])"
    by simp
next
  fix g :: Graph and current :: string and queue visited allReachable :: "string list"
  assume "current \<in> set visited"
  then have "(set (map (target \<circ> snd) (g_edges g)) \<union> set (current # queue)) - set visited
           = (set (map (target \<circ> snd) (g_edges g)) \<union> set queue) - set visited"
    by auto
  then show "((g, queue, visited, allReachable), (g, current # queue, visited, allReachable))
      \<in> measures
    [\<lambda>(g, queue, visited, allReachable).
        card ((set (map (target \<circ> snd) (g_edges g)) \<union> set queue) - set visited),
     \<lambda>(g, queue, visited, allReachable). length queue]"
    by simp
next
  fix g :: Graph and current :: string and queue visited allReachable :: "string list"
  assume c: "current \<notin> set visited"
  let ?T = "set (map (target \<circ> snd) (g_edges g))"
  let ?q' = "queue @ filter (\<lambda>neighbor. neighbor \<notin> set (set_add visited current))
                        (graph_outNeighbors g current)"
  have "set (graph_outNeighbors g current) \<subseteq> ?T"
    by (auto simp: graph_outNeighbors_def own_keys_def)
  then have "(?T \<union> set ?q') - set (set_add visited current)
           \<subseteq> ((?T \<union> set (current # queue)) - set visited) - {current}"
    by (auto simp: set_add_def)
  moreover have "current \<in> (?T \<union> set (current # queue)) - set visited"
    using c by simp
  ultimately have "(?T \<union> set ?q') - set (set_add visited current)
           \<subset> (?T \<union> set (current # queue)) - set visited"
    by blast
  then have "card ((?T \<union> set ?q') - set (set_add visited current))
           < card ((?T \<union> set (current # queue)) - set visited)"
    by (intro psubset_card_mono) auto
  then show "((g, ?q', set_add visited current, set_add allReachable current),
              (g, current # queue, visited, allReachable))
      \<in> measures
    [\<lambda>(g, queue, visited, allReachable).
        card ((set (map (target \<circ> snd) (g_edges g)) \<union> set queue) - set visited),
     \<lambda>(g, queue, visited, allReachable). length queue]"
    by simp
qed

record ImpactAnalysis =
  directImpact :: "EventStormingNode list"
  indirectImpact :: "EventStormingNode list"
  totalReach :: nat

definition getImpactAnalysis :: "Graph \<Rightarrow> string \<Rightarrow> ImpactAnalysis" where
  "getImpactAnalysis g nodeId =
     (if \<not> graph_hasNode g nodeId
      then \<lparr> directImpact = [], indirectImpact = [], totalReach = 0 \<rparr>
      else
        (let neighbors = graph_outNeighbors g nodeId;
             directImpact = List.map_filter (graph_getNodeAttributes g) neighbors;
             (visited, allReachable) = bfs g neighbors [nodeId] neighbors;
             indirectImpact =
               List.map_filter (graph_getNodeAttributes g)
                 (filter (\<lambda>reachableId. \<not> list_ex (\<lambda>n. node_id n = reachableId) directImpact)
                    allReachable)
         in \<lparr> directImpact = directImpact, indirectImpact = indirectImpact,
              totalReach = length allReachable \<rparr>))"

section \<open>EventStormingAPI: command execution paths\<close>

text \<open>
  \<^verbatim>\<open>label.toLowerCase().includes(...)\<close>. Labels are taken to be ASCII text:
  \<open>toLowerCase\<close> maps the letters A to Z and leaves every other character as it is.
\<close>

definition lower_char :: "char \<Rightarrow> char" where
  "lower_char c =
     (case map_of (zip ''ABCDEFGHIJKLMNOPQRSTUVWXYZ'' ''abcdefghijklmnopqrstuvwxyz'') c of
        Some d \<Rightarrow> d
      | None \<Rightarrow> c)"

definition toLowerCase :: "string \<Rightarrow> string" where
  "toLowerCase s = map lower_char s"

fun startsWith :: "string \<Rightarrow> string \<Rightarrow> bool" where
  "startsWith s [] = True"
| "startsWith [] (c # cs) = False"
| "startsWith (x # xs) (c # cs) = (x = c \<and> startsWith xs cs)"

fun str_includes :: "string \<Rightarrow> string \<Rightarrow> bool" where
  "str_includes [] sub = (sub = [])"
| "str_includes (x # xs) sub = (startsWith (x # xs) sub \<or> str_includes xs sub)"

datatype PathType = HAPPY_PATH | ERROR_PATH | POLICY_PATH

text \<open>
  One entry of \<^verbatim>\<open>paths\<close>. The description, "command label, arrow, event label" with
  "arrow Policy Actions" appended when the event has policy commands, is kept as its
  three parts.
\<close>

record ExecutionPath =
  path :: "EventStormingNode list"
  pathType :: PathType
  description :: "string \<times> string \<times> bool"

definition getCommandExecutionPaths :: "Graph \<Rightarrow> string \<Rightarrow> EventStormingNode option \<times> ExecutionPath list" where
  "getCommandExecutionPaths g commandId =
     (case adapter_getNode g commandId of
        None \<Rightarrow> (None, [])
      | Some command \<Rightarrow>
          if node_type command \<noteq> Command then (None, [])
          else
            (let events = getOutNeighborsByLabel g commandId Lbl_then in
             (Some command,
              concat (map (\<lambda>event.
                map (\<lambda>pathIds.
                  (let pathNodes = List.map_filter (adapter_getNode g) pathIds;
                       pathType0 = HAPPY_PATH;
                       pathType1 =
                         (if str_includes (toLowerCase (node_label event)) ''error''
                             \<or> str_includes (toLowerCase (node_label event)) ''failed''
                          then ERROR_PATH else pathType0);
                       policyCommands = getOutNeighborsByLabel g (node_id event) Lbl_then_policy;
                       pathType2 = (if policyCommands \<noteq> [] then POLICY_PATH else pathType1)
                   in \<lparr> path = pathNodes, pathType = pathType2,
                        description = (node_label command, node_label event, policyCommands \<noteq> []) \<rparr>))
                  (findAllPaths g commandId (node_id event) 5))
                events))))"

text \<open>The relation of the edges: a node and the target of one of its out-edges.\<close>

definition edge_rel :: "Graph \<Rightarrow> (string \<times> string) set" where
  "edge_rel g = set (map (\<lambda>(key, e). (source e, target e)) (g_edges g))"

text \<open>
  The nodes that a path of edges reaches from a node of \<open>Q\<close> without touching \<open>V\<close>: what a
  breadth-first traversal with queue \<open>Q\<close> and visited set \<open>V\<close> has yet to visit.
\<close>

definition reach_avoiding :: "Graph \<Rightarrow> string set \<Rightarrow> string set \<Rightarrow> string set" where
  "reach_avoiding g V Q = {v. \<exists>a \<in> Q. a \<notin> V \<and> (a, v) \<in> (edge_rel g \<inter> (- V) \<times> (- V))\<^sup>*}"

text \<open>A label names an error or a failure.\<close>

definition names_failure :: "string \<Rightarrow> bool" where
  "names_failure l =
     (str_includes (toLowerCase l) ''error'' \<or> str_includes (toLowerCase l) ''failed'')"

section \<open>Graph invariants named by the specification\<close>




text \<open>
  Outgoing edges of a node. An edge is attached to the node stored under the key that
  is the edge's \<^verbatim>\<open>source\<close>, whatever the \<^verbatim>\<open>id\<close> attribute of that node says:
  \<open>has_out_edge g k lbl\<close>, the node stored under the key \<open>k\<close> has an outgoing edge with
  the label. \<open>node_has_out_edge g n lbl\<close>: the node \<open>n\<close> of the graph, stored under some
  key, has an outgoing edge with the label.
\<close>

definition has_out_edge :: "Graph \<Rightarrow> string \<Rightarrow> EdgeLabel \<Rightarrow> bool" where
  "has_out_edge g k lbl = list_ex (\<lambda>(key, e). source e = k \<and> label e = lbl) (g_edges g)"

definition node_has_out_edge :: "Graph \<Rightarrow> EventStormingNode \<Rightarrow> EdgeLabel \<Rightarrow> bool" where
  "node_has_out_edge g n lbl = list_ex (\<lambda>(k, n'). n' = n \<and> has_out_edge g k lbl) (g_nodes g)"

text \<open>
  The data model of the store: every node is stored under its own id and node keys are
  unique (invariant 1); every edge is stored under the key of its triple, edge keys are
  unique (invariant 3) and both endpoints exist (invariant 2); and, as the library
  accepts an edge only where \<^verbatim>\<open>out[target]\<close> of its source is undefined, at most one edge
  links a node to another and no edge has a target named like a member of
  \<^verbatim>\<open>Object.prototype\<close>.
\<close>

definition nodes_ok :: "Graph \<Rightarrow> bool" where
  "nodes_ok g =
     (distinct (map fst (g_nodes g)) \<and> list_all (\<lambda>(k, n). node_id n = k) (g_nodes g))"

definition edges_ok :: "Graph \<Rightarrow> bool" where
  "edges_ok g =
     (distinct (map fst (g_edges g))
      \<and> list_all (\<lambda>(key, e). key = edgeKey (source e) (label e) (target e)
                     \<and> graph_hasNode g (source e) \<and> graph_hasNode g (target e)
                     \<and> target e \<notin> set object_prototype_members) (g_edges g)
      \<and> distinct (map (\<lambda>(key, e). (source e, target e)) (g_edges g)))"

definition store_ok :: "Graph \<Rightarrow> bool" where
  "store_ok g = (nodes_ok g \<and> edges_ok g)"

text \<open>No two edges of a list join the same source to the same target under different
  labels.\<close>

definition one_label_per_pair :: "EventStormingEdge list \<Rightarrow> bool" where
  "one_label_per_pair es =
     list_all (\<lambda>e. list_all (\<lambda>e'. source e = source e' \<and> target e = target e' \<longrightarrow> label e = label e') es) es"

text \<open>The edges of a snapshot whose source and target are both ids of nodes of the
  snapshot: those that a load does not skip for a missing endpoint.\<close>

definition snapshot_attached :: "EventStormingNode list \<Rightarrow> EventStormingEdge list \<Rightarrow> EventStormingEdge list" where
  "snapshot_attached ns es =
     filter (\<lambda>e. source e \<in> set (map node_id ns) \<and> target e \<in> set (map node_id ns)) es"

text \<open>A mutation that leaves the id of every node as it is.\<close>

fun keeps_id :: "Mutation \<Rightarrow> bool" where
  "keeps_id (UpdateNode i updates) = (upd_id updates = None \<or> upd_id updates = Some i)"
| "keeps_id m = True"

text \<open>The graph a load leaves, and the graph a mutation leaves, whether it returned or
  raised.\<close>

fun graph_after :: "(Exception \<times> Graph) + Graph \<Rightarrow> Graph" where
  "graph_after (Inl (err, g)) = g"
| "graph_after (Inr g) = g"

fun graph_left :: "(Exception \<times> Graph) + (ValidationResult \<times> Graph) \<Rightarrow> Graph" where
  "graph_left (Inl (err, g)) = g"
| "graph_left (Inr (r, g)) = g"

section \<open>Example graphs\<close>

text \<open>Actor a1, command c1 and the edge a1 --issues--> c1.\<close>

definition actor_a1 :: EventStormingNode where
  "actor_a1 = \<lparr> node_id = ''a1'', node_label = ''Customer'', node_type = Actor, node_ext = [] \<rparr>"

definition command_c1 :: EventStormingNode where
  "command_c1 = \<lparr> node_id = ''c1'', node_label = ''Place order'', node_type = Command, node_ext = [] \<rparr>"

definition event_e1 :: EventStormingNode where
  "event_e1 = \<lparr> node_id = ''e1'', node_label = ''Order placed'', node_type = Event, node_ext = [] \<rparr>"

definition issues_a1_c1 :: EventStormingEdge where
  "issues_a1_c1 = \<lparr> source = ''a1'', target = ''c1'', label = Lbl_issues \<rparr>"

definition then_c1_e1 :: EventStormingEdge where
  "then_c1_e1 = \<lparr> source = ''c1'', target = ''e1'', label = Lbl_then \<rparr>"

definition graph_a1_c1 :: Graph where
  "graph_a1_c1 =
     \<lparr> g_nodes = [(''a1'', actor_a1), (''c1'', command_c1)],
       g_edges = [(''a1-issues-c1'', issues_a1_c1)],
       g_in_proto = [] \<rparr>"

definition graph_a1_c1_e1 :: Graph where
  "graph_a1_c1_e1 =
     \<lparr> g_nodes = [(''a1'', actor_a1), (''c1'', command_c1), (''e1'', event_e1)],
       g_edges = [(''a1-issues-c1'', issues_a1_c1), (''c1-then-e1'', then_c1_e1)],
       g_in_proto = [] \<rparr>"

text \<open>
  Command c1 with three events: e1 "Order placed", e2 "Payment Failed", and e3
  "Stock ERROR", which triggers the policy command c2.
\<close>

definition event_e2 :: EventStormingNode where
  "event_e2 = \<lparr> node_id = ''e2'', node_label = ''Payment Failed'', node_type = Event, node_ext = [] \<rparr>"

definition event_e3 :: EventStormingNode where
  "event_e3 = \<lparr> node_id = ''e3'', node_label = ''Stock ERROR'', node_type = Event, node_ext = [] \<rparr>"

definition command_c2 :: EventStormingNode where
  "command_c2 = \<lparr> node_id = ''c2'', node_label = ''Notify customer'', node_type = Command, node_ext = [] \<rparr>"

definition then_c1_e2 :: EventStormingEdge where
  "then_c1_e2 = \<lparr> source = ''c1'', target = ''e2'', label = Lbl_then \<rparr>"

definition graph_outcomes :: Graph where
  "graph_outcomes =
     \<lparr> g_nodes = [(''c1'', command_c1), (''e1'', event_e1), (''e2'', event_e2), (''e3'', event_e3),
                  (''c2'', command_c2)],
       g_edges =
         [(''c1-then-e1'', then_c1_e1),
          (''c1-then-e2'', then_c1_e2),
          (''c1-then-e3'', \<lparr> source = ''c1'', target = ''e3'', label = Lbl_then \<rparr>),
          (''e3-then (policy)-c2'', \<lparr> source = ''e3'', target = ''c2'', label = Lbl_then_policy \<rparr>)],
       g_in_proto = [] \<rparr>"

text \<open>
  Command c1 with the events e1 and e2, after \<open>updateNode\<close> with the updates
  \<^verbatim>\<open>{id: 'e2'}\<close> on e1: the node "Order placed" is stored under the key e1 with the id
  e2.
\<close>

definition graph_two_e2 :: Graph where
  "graph_two_e2 =
     \<lparr> g_nodes = [(''c1'', command_c1), (''e1'', event_e1\<lparr> node_id := ''e2'' \<rparr>), (''e2'', event_e2)],
       g_edges = [(''c1-then-e1'', then_c1_e1), (''c1-then-e2'', then_c1_e2)],
       g_in_proto = [] \<rparr>"

text \<open>
  Command c1 with the event e1, after \<open>updateNode\<close> with the updates \<^verbatim>\<open>{id: 'c9'}\<close> on
  c1: the command is stored under the key c1 with the id c9.
\<close>

definition graph_c9 :: Graph where
  "graph_c9 =
     \<lparr> g_nodes = [(''c1'', command_c1\<lparr> node_id := ''c9'' \<rparr>), (''e1'', event_e1)],
       g_edges = [(''c1-then-e1'', then_c1_e1)],
       g_in_proto = [] \<rparr>"

text \<open>Scenario 5: the edges n1 -> n2, n2 -> n3 and n1 -> n4.\<close>

definition node_n1 :: EventStormingNode where
  "node_n1 = \<lparr> node_id = ''n1'', node_label = ''Place order'', node_type = Command, node_ext = [] \<rparr>"

definition node_n2 :: EventStormingNode where
  "node_n2 = \<lparr> node_id = ''n2'', node_label = ''Order placed'', node_type = Event, node_ext = [] \<rparr>"

definition node_n3 :: EventStormingNode where
  "node_n3 = \<lparr> node_id = ''n3'', node_label = ''Send receipt'', node_type = Command, node_ext = [] \<rparr>"

definition node_n4 :: EventStormingNode where
  "node_n4 = \<lparr> node_id = ''n4'', node_label = ''Order'', node_type = Aggregate, node_ext = [] \<rparr>"

definition graph_scenario5 :: Graph where
  "graph_scenario5 =
     \<lparr> g_nodes = [(''n1'', node_n1), (''n2'', node_n2), (''n3'', node_n3), (''n4'', node_n4)],
       g_edges =
         [(''n1-then-n2'', \<lparr> source = ''n1'', target = ''n2'', label = Lbl_then \<rparr>),
          (''n2-then (policy)-n3'', \<lparr> source = ''n2'', target = ''n3'', label = Lbl_then_policy \<rparr>),
          (''n1-on-n4'', \<lparr> source = ''n1'', target = ''n4'', label = Lbl_on \<rparr>)],
       g_in_proto = [] \<rparr>"

text \<open>A cycle: c1 --then--> e1 and e1 --then (policy)--> c1.\<close>

definition graph_cycle :: Graph where
  "graph_cycle =
     \<lparr> g_nodes = [(''c1'', command_c1), (''e1'', event_e1)],
       g_edges =
         [(''c1-then-e1'', then_c1_e1),
          (''e1-then (policy)-c1'', \<lparr> source = ''e1'', target = ''c1'', label = Lbl_then_policy \<rparr>)],
       g_in_proto = [] \<rparr>"

definition no_updates :: NodeUpdates where
  "no_updates = \<lparr> upd_id = None, upd_label = None, upd_type = None, upd_ext = [] \<rparr>"

text \<open>
  Commands x and x-on, aggregates on-y and y, and the edge x --on--> on-y, whose key is
  the string x-on-on-y.
\<close>

definition graph_hyphens :: Graph where
  "graph_hyphens =
     \<lparr> g_nodes =
         [(''x'', \<lparr> node_id = ''x'', node_label = ''Ship'', node_type = Command, node_ext = [] \<rparr>),
          (''on-y'', \<lparr> node_id = ''on-y'', node_label = ''Parcel'', node_type = Aggregate, node_ext = [] \<rparr>),
          (''x-on'', \<lparr> node_id = ''x-on'', node_label = ''Bill'', node_type = Command, node_ext = [] \<rparr>),
          (''y'', \<lparr> node_id = ''y'', node_label = ''Invoice'', node_type = Aggregate, node_ext = [] \<rparr>)],
       g_edges = [(''x-on-on-y'', \<lparr> source = ''x'', target = ''on-y'', label = Lbl_on \<rparr>)],
       g_in_proto = [] \<rparr>"

text \<open>
  A command whose id is \<^verbatim>\<open>__proto__\<close>, the event e1 and the edge
  __proto__ --then--> e1: attaching the edge has made its edge data the prototype of the
  \<^verbatim>\<open>in\<close> object of e1.
\<close>

definition command_proto :: EventStormingNode where
  "command_proto = \<lparr> node_id = ''__proto__'', node_label = ''Place order'', node_type = Command, node_ext = [] \<rparr>"

definition then_proto_e1 :: EventStormingEdge where
  "then_proto_e1 = \<lparr> source = ''__proto__'', target = ''e1'', label = Lbl_then \<rparr>"

definition graph_proto :: Graph where
  "graph_proto =
     \<lparr> g_nodes = [(''__proto__'', command_proto), (''e1'', event_e1)],
       g_edges = [(''__proto__-then-e1'', then_proto_e1)],
       g_in_proto = [''e1''] \<rparr>"

text \<open>An event whose id is \<^verbatim>\<open>constructor\<close>, the name of a member of \<^verbatim>\<open>Object.prototype\<close>.\<close>

definition event_constructor :: EventStormingNode where
  "event_constructor = \<lparr> node_id = ''constructor'', node_label = ''Order placed'', node_type = Event, node_ext = [] \<rparr>"

definition then_c1_constructor :: EventStormingEdge where
  "then_c1_constructor = \<lparr> source = ''c1'', target = ''constructor'', label = Lbl_then \<rparr>"

section \<open>Properties: node validation and failed mutations\<close>

lemma addNode_never_throws: "\<exists>r g'. addNode g n = Inr (r, g')"
  by (simp only: addNode_def adapter_addNode_def adapter_hasNode_def graph_addNode_def Let_def
        split: if_splits sum.splits prod.splits) auto

text \<open>
  Claim C4, as the code has it. For every node whose id and label each contain a character
  that is not white space and whose type is one of actor, command, aggregate, event,
  viewmodel, preconditions, guards, branchinglogic, \<open>addNode\<close> on a graph without that id
  returns \<open>isValid = True\<close> with no error, adds the node at the end of the node map, and
  warns exactly when the id does not match the kebab-case pattern. Nothing is stated
  about the type boundary.
\<close>

theorem addNode_valid_node:
  assumes "\<not> blank (node_id n)" and "\<not> blank (node_label n)"
    and "node_type n \<noteq> Boundary"
    and "\<not> adapter_hasNode g (node_id n)"
  shows "addNode g n =
     Inr (\<lparr> isValid = True, errors = [],
            warnings = (if kebab_case (node_id n) then [] else [IdNotKebabCase (node_id n)]) \<rparr>,
          g\<lparr> g_nodes := g_nodes g @ [(node_id n, n)] \<rparr>)"
proof -
  have ty: "node_type n \<in> set validTypes"
    using assms(3) by (cases "node_type n") (simp_all add: validTypes_def)
  have ne: "node_id n \<noteq> []"
    using assms(1) by (auto simp: blank_def)
  have v: "validateNode n = \<lparr> isValid = True, errors = [],
            warnings = (if kebab_case (node_id n) then [] else [IdNotKebabCase (node_id n)]) \<rparr>"
    using assms(1,2) ty ne by (simp add: validateNode_def Let_def)
  show ?thesis
    using assms(4) v
    by (simp add: addNode_def adapter_addNode_def adapter_hasNode_def graph_addNode_def success_def)
qed

theorem addNode_valid_node_witness:
  "addNode graph_new \<lparr> node_id = ''a1'', node_label = ''Customer'', node_type = Actor, node_ext = [] \<rparr> =
     Inr (\<lparr> isValid = True, errors = [], warnings = [] \<rparr>,
          \<lparr> g_nodes = [(''a1'', \<lparr> node_id = ''a1'', node_label = ''Customer'', node_type = Actor, node_ext = [] \<rparr>)],
            g_edges = [], g_in_proto = [] \<rparr>)"
  using addNode_valid_node [of "\<lparr> node_id = ''a1'', node_label = ''Customer'', node_type = Actor, node_ext = [] \<rparr>" graph_new]
  by (simp add: blank_def is_whitespace_def kebab_case_def kebab_char_def adapter_hasNode_def
        graph_hasNode_def graph_new_def)

text \<open>
  Claim C4 as stated fails at two inputs on the empty graph: a node of type boundary is
  rejected with "Invalid node type", since \<open>validTypes\<close> lists eight kinds; and a node whose id
  is one space, which is not the empty string, is rejected with "Node ID cannot be empty".
\<close>

theorem addNode_boundary_or_blank_counterexample:
  "addNode graph_new \<lparr> node_id = ''b1'', node_label = ''Checkout'', node_type = Boundary, node_ext = [] \<rparr> =
     Inr (\<lparr> isValid = False, errors = [InvalidNodeType Boundary], warnings = [] \<rparr>, graph_new)
   \<and> addNode graph_new \<lparr> node_id = '' '', node_label = ''Customer'', node_type = Actor, node_ext = [] \<rparr> =
     Inr (\<lparr> isValid = False, errors = [NodeIdEmpty], warnings = [IdNotKebabCase '' ''] \<rparr>, graph_new)"
  by (simp add: addNode_def validateNode_def validTypes_def blank_def is_whitespace_def
        kebab_case_def kebab_char_def adapter_hasNode_def graph_hasNode_def graph_new_def Let_def)

text \<open>
  Claim C9. Whenever one of the five mutations returns a result with \<open>isValid = False\<close>,
  the graph it leaves is the graph it was given: node map and edge map are unchanged.
  (An exception is no returned result.)
\<close>

theorem failed_mutation_is_noop:
  assumes "mutate g m = Inr (r, g')" and "\<not> isValid r"
  shows "g' = g"
proof (cases m)
  case (AddNode node)
  with assms show ?thesis
    by (auto simp: addNode_def adapter_addNode_def graph_addNode_def success_def Let_def
          split: if_splits sum.splits prod.splits)
next
  case (UpdateNode i updates)
  with assms show ?thesis
    by (auto simp: updateNode_def success_def Let_def split: option.splits if_splits)
next
  case (RemoveNode i)
  with assms show ?thesis
    by (auto simp: removeNode_def success_def split: if_splits sum.splits prod.splits)
next
  case (AddEdge edge)
  with assms show ?thesis
    by (auto simp: addEdge_def adapter_addEdge_def success_def Let_def
          split: option.splits if_splits sum.splits prod.splits)
next
  case (RemoveEdge src tgt lbl)
  with assms show ?thesis
    by (auto simp: removeEdge_def adapter_removeEdge_def success_def Let_def
          split: if_splits prod.splits)
qed

theorem failed_mutation_is_noop_witness:
  "mutate graph_new (RemoveNode ''n1'') = Inr (failure (NodeNotFound ''n1''), graph_new)
   \<and> \<not> isValid (failure (NodeNotFound ''n1''))
   \<and> mutate graph_new (AddNode \<lparr> node_id = ''b1'', node_label = [], node_type = Actor, node_ext = [] \<rparr>)
       = Inr (\<lparr> isValid = False, errors = [NodeLabelEmpty], warnings = [] \<rparr>, graph_new)"
  using failed_mutation_is_noop [of graph_new "RemoveNode ''n1''" "failure (NodeNotFound ''n1'')" graph_new]
  by (simp add: removeNode_def addNode_def validateNode_def validTypes_def blank_def
        is_whitespace_def kebab_case_def kebab_char_def adapter_hasNode_def graph_hasNode_def
        graph_new_def failure_def Let_def)

section \<open>Properties: lookups in the node map\<close>

lemma getNode_eq: "adapter_getNode g k = map_of (g_nodes g) k"
  by (simp add: adapter_getNode_def graph_hasNode_def graph_getNodeAttributes_def)


lemma map_of_filter_self: "map_of (filter (\<lambda>(k', n). k' \<noteq> N) xs) N = None"
  by (induction xs) auto


section \<open>Properties: removing a node\<close>

lemma dropNode_returns:
  assumes "\<not> graph_inInherits g N"
  shows "graph_dropNode g N =
     Inr (g\<lparr> g_nodes := filter (\<lambda>(k, n). k \<noteq> N) (g_nodes g),
              g_edges := filter (\<lambda>(key, e). source e \<noteq> N \<and> target e \<noteq> N) (g_edges g) \<rparr>)"
proof -
  have "\<forall>(key, e) \<in> set (g_edges g). \<not> (source e = ''__proto__'' \<and> target e = N)"
    using assms by (auto simp: graph_inInherits_def list_ex_iff)
  then have "filter (\<lambda>(key, e). source e \<noteq> N \<and> (target e \<noteq> N \<or> source e = ''__proto__'')) (g_edges g)
      = filter (\<lambda>(key, e). source e \<noteq> N \<and> target e \<noteq> N) (g_edges g)"
    by (intro filter_cong) auto
  with assms show ?thesis
    by (simp add: graph_dropNode_def)
qed

lemma dropNode_raises:
  assumes "graph_inInherits g N"
  shows "graph_dropNode g N =
     Inl (TypeError,
          g\<lparr> g_edges := filter (\<lambda>(key, e). source e \<noteq> N \<and> (target e \<noteq> N \<or> source e = ''__proto__''))
                          (g_edges g) \<rparr>)"
  using assms by (simp add: graph_dropNode_def)


text \<open>
  Where no edge from \<^verbatim>\<open>__proto__\<close> is or has been attached to the node, \<open>removeNode\<close>
  returns and leaves the graph without the node and without the edges incident to it,
  all else as it was.
\<close>

lemma removeNode_plain:
  assumes "adapter_hasNode g N" and "\<not> graph_inInherits g N"
  shows "removeNode g N =
     Inr (success [],
          g\<lparr> g_nodes := filter (\<lambda>(k, n). k \<noteq> N) (g_nodes g),
              g_edges := filter (\<lambda>(key, e). source e \<noteq> N \<and> target e \<noteq> N) (g_edges g) \<rparr>)"
  using assms
  by (simp add: removeNode_def adapter_removeNode_def adapter_hasNode_def dropNode_returns)

text \<open>
  Claim C2, evaluated at an input where the code departs from it. The graph of the
  command \<^verbatim>\<open>__proto__\<close>, the event e1 and the edge __proto__ --then--> e1 is what two
  \<open>addNode\<close> and one \<open>addEdge\<close> build, each returning \<open>isValid = True\<close>. e1 is a node of
  it; \<open>removeNode\<close> of e1 returns no result: the library raises \<^verbatim>\<open>TypeError\<close>, and the
  graph it leaves is the graph as it was, with the node e1 and with the edge whose target
  is e1.
\<close>

theorem removeNode_proto_in_edge_raises:
  "mutate_all graph_new [AddNode command_proto, AddNode event_e1, AddEdge then_proto_e1] = Inr graph_proto
   \<and> mutate graph_new (AddNode command_proto)
       = Inr (success [], graph_new\<lparr> g_nodes := [(''__proto__'', command_proto)] \<rparr>)
   \<and> adapter_hasNode graph_proto ''e1''
   \<and> removeNode graph_proto ''e1'' = Inl (TypeError, graph_proto)
   \<and> map snd (g_edges graph_proto) = [then_proto_e1]
   \<and> target then_proto_e1 = ''e1''"
  by code_simp

section \<open>Properties: the compatibility table as an invariant\<close>













section \<open>Properties: adding an edge\<close>

text \<open>
  Claim C3, evaluated at three inputs where the code departs from it.

  First, the graph of commands x and x-on, aggregates on-y and y and the edge
  x --on--> on-y is what four \<open>addNode\<close> and one \<open>addEdge\<close> build. It has no edge with
  the triple (x-on, on, y), the endpoints of that triple exist and command to aggregate is
  the permitted pair for on; yet \<open>addEdge\<close> returns \<open>isValid = False\<close> with "Edge already
  exists" and leaves the graph as it was, because both triples have the key x-on-on-y.

  Second, after \<open>updateNode\<close> has made a1 a viewmodel in the graph a1 --issues--> c1, the
  edge a1 --supports decision for--> c1 has existing endpoints, a permitted pair and a new
  triple; \<open>addEdge\<close> returns no result: the library raises, since an edge already links a1
  to c1 and the graph is not a multigraph.

  Third, in the graph of the command c1 and an event whose id is \<^verbatim>\<open>constructor\<close>, which
  has no edge at all, \<open>addEdge\<close> of c1 --then--> constructor returns no result either:
  the library raises, since it reads \<^verbatim>\<open>out['constructor']\<close> of c1 from a plain object.
\<close>

theorem addEdge_distinct_triples_blocked:
  "mutate_all graph_new
     [AddNode \<lparr> node_id = ''x'', node_label = ''Ship'', node_type = Command, node_ext = [] \<rparr>,
      AddNode \<lparr> node_id = ''on-y'', node_label = ''Parcel'', node_type = Aggregate, node_ext = [] \<rparr>,
      AddNode \<lparr> node_id = ''x-on'', node_label = ''Bill'', node_type = Command, node_ext = [] \<rparr>,
      AddNode \<lparr> node_id = ''y'', node_label = ''Invoice'', node_type = Aggregate, node_ext = [] \<rparr>,
      AddEdge \<lparr> source = ''x'', target = ''on-y'', label = Lbl_on \<rparr>] = Inr graph_hyphens
   \<and> \<not> list_ex (\<lambda>e. source e = ''x-on'' \<and> label e = Lbl_on \<and> target e = ''y'')
         (map snd (g_edges graph_hyphens))
   \<and> map_option node_type (adapter_getNode graph_hyphens ''x-on'') = Some Command
   \<and> map_option node_type (adapter_getNode graph_hyphens ''y'') = Some Aggregate
   \<and> isValidCombination Lbl_on Command Aggregate
   \<and> addEdge graph_hyphens \<lparr> source = ''x-on'', target = ''y'', label = Lbl_on \<rparr>
       = Inr (failure (EdgeAlreadyExists ''x-on'' Lbl_on ''y''), graph_hyphens)
   \<and> mutate_all graph_a1_c1 [UpdateNode ''a1'' (no_updates\<lparr> upd_type := Some Viewmodel \<rparr>)]
       = Inr (graph_a1_c1\<lparr> g_nodes := [(''a1'', actor_a1\<lparr> node_type := Viewmodel \<rparr>), (''c1'', command_c1)] \<rparr>)
   \<and> addEdge (graph_a1_c1\<lparr> g_nodes := [(''a1'', actor_a1\<lparr> node_type := Viewmodel \<rparr>), (''c1'', command_c1)] \<rparr>)
         \<lparr> source = ''a1'', target = ''c1'', label = Lbl_supports_decision_for \<rparr>
       = Inl (UsageGraphError,
              graph_a1_c1\<lparr> g_nodes := [(''a1'', actor_a1\<lparr> node_type := Viewmodel \<rparr>), (''c1'', command_c1)] \<rparr>)
   \<and> mutate_all graph_new [AddNode command_c1, AddNode event_constructor]
       = Inr (graph_new\<lparr> g_nodes := [(''c1'', command_c1), (''constructor'', event_constructor)] \<rparr>)
   \<and> addEdge (graph_new\<lparr> g_nodes := [(''c1'', command_c1), (''constructor'', event_constructor)] \<rparr>)
         then_c1_constructor
       = Inl (UsageGraphError,
              graph_new\<lparr> g_nodes := [(''c1'', command_c1), (''constructor'', event_constructor)] \<rparr>)"
  by code_simp

section \<open>Properties: the data model of the store\<close>

lemma hasNode_iff: "graph_hasNode g k \<longleftrightarrow> k \<in> fst ` set (g_nodes g)"
  by (simp add: graph_hasNode_def map_of_eq_None_iff)

lemma hasEdge_iff: "graph_hasEdge g key \<longleftrightarrow> key \<in> fst ` set (g_edges g)"
  by (simp add: graph_hasEdge_def map_of_eq_None_iff)

lemma outDefined_iff:
  "graph_outDefined g s t \<longleftrightarrow>
     t \<in> set object_prototype_members
     \<or> (s, t) \<in> set (map (\<lambda>(key, e). (source e, target e)) (g_edges g))"
  by (auto simp: graph_outDefined_def list_ex_iff)

lemma store_ok_iff:
  "store_ok g \<longleftrightarrow>
     distinct (map fst (g_nodes g))
     \<and> (\<forall>(k, n) \<in> set (g_nodes g). node_id n = k)
     \<and> distinct (map fst (g_edges g))
     \<and> (\<forall>(key, e) \<in> set (g_edges g). key = edgeKey (source e) (label e) (target e)
            \<and> source e \<in> fst ` set (g_nodes g) \<and> target e \<in> fst ` set (g_nodes g)
            \<and> target e \<notin> set object_prototype_members)
     \<and> distinct (map (\<lambda>(key, e). (source e, target e)) (g_edges g))"
  by (auto simp: store_ok_def nodes_ok_def edges_ok_def list_all_iff hasNode_iff)

lemma store_ok_new: "store_ok graph_new"
  by (simp add: store_ok_iff graph_new_def)

lemma store_ok_clear: "store_ok (graph_clear g)"
  by (simp add: store_ok_iff graph_clear_def)

lemma store_ok_in_proto: "store_ok (g\<lparr> g_in_proto := ps \<rparr>) = store_ok g"
  by (simp add: store_ok_iff)

lemma store_ok_addNode:
  assumes "store_ok g" and "\<not> graph_hasNode g (node_id n)"
  shows "store_ok (g\<lparr> g_nodes := g_nodes g @ [(node_id n, n)] \<rparr>)"
  using assms unfolding store_ok_iff hasNode_iff by auto

lemma store_ok_addEdge:
  assumes "store_ok g" and "graph_hasNode g (source e)" and "graph_hasNode g (target e)"
    and "\<not> graph_hasEdge g (edgeKey (source e) (label e) (target e))"
    and "\<not> graph_outDefined g (source e) (target e)"
  shows "store_ok (g\<lparr> g_edges := g_edges g @ [(edgeKey (source e) (label e) (target e), e)],
                      g_in_proto := ps \<rparr>)"
  using assms unfolding store_ok_iff hasNode_iff hasEdge_iff outDefined_iff by auto

lemma addEdgeWithKey_returns:
  assumes "graph_addEdgeWithKey g key e = Inr g'"
  shows "graph_hasNode g (source e) \<and> graph_hasNode g (target e) \<and> \<not> graph_hasEdge g key
     \<and> \<not> graph_outDefined g (source e) (target e)
     \<and> g' = g\<lparr> g_edges := g_edges g @ [(key, e)],
                g_in_proto := (if source e = ''__proto__'' then List.insert (target e) (g_in_proto g)
                               else g_in_proto g) \<rparr>"
  using assms by (auto simp: graph_addEdgeWithKey_def split: if_splits)

lemma keys_filter: "fst ` set (filter (\<lambda>(k', n). k' \<noteq> N) xs) = fst ` set xs - {N}"
  by force

lemma store_ok_fewer_edges:
  assumes "store_ok g"
  shows "store_ok (g\<lparr> g_edges := filter P (g_edges g) \<rparr>)"
  using assms unfolding store_ok_iff by (auto simp: distinct_map_filter)

lemma store_ok_dropNode:
  assumes "store_ok g"
  shows "store_ok (g\<lparr> g_nodes := filter (\<lambda>(k, n). k \<noteq> N) (g_nodes g),
                      g_edges := filter (\<lambda>(key, e). source e \<noteq> N \<and> target e \<noteq> N) (g_edges g) \<rparr>)"
    (is "store_ok ?g'")
proof -
  let ?ns = "filter (\<lambda>(k', n). k' \<noteq> N) (g_nodes g)"
  let ?es = "filter (\<lambda>(key, e). source e \<noteq> N \<and> target e \<noteq> N) (g_edges g)"
  have 1: "distinct (map fst ?ns)"
    using assms by (simp add: store_ok_iff distinct_map_filter)
  have 2: "\<forall>(k, n) \<in> set ?ns. node_id n = k"
    using assms by (auto simp: store_ok_iff)
  have 3: "distinct (map fst ?es)"
    using assms by (simp add: store_ok_iff distinct_map_filter)
  have 4: "\<forall>(key, e) \<in> set ?es. key = edgeKey (source e) (label e) (target e)
            \<and> source e \<in> fst ` set ?ns \<and> target e \<in> fst ` set ?ns
            \<and> target e \<notin> set object_prototype_members"
    unfolding keys_filter using assms by (auto simp: store_ok_iff)
  have 5: "distinct (map (\<lambda>(key, e). (source e, target e)) ?es)"
    using assms by (simp add: store_ok_iff distinct_map_filter)
  have "g_nodes ?g' = ?ns" "g_edges ?g' = ?es"
    by simp_all
  with 1 2 3 4 5 show ?thesis
    unfolding store_ok_iff by presburger
qed

lemma store_ok_dropEdge:
  assumes "store_ok g"
  shows "store_ok (graph_dropEdge g key)"
  using assms unfolding graph_dropEdge_def by (rule store_ok_fewer_edges)

lemma replace_keys:
  "map fst (map (\<lambda>(k', n'). if k' = k then (k', n) else (k', n')) xs) = map fst xs"
  by (induction xs) auto

lemma store_ok_replace:
  assumes "store_ok g" and "node_id n = k"
  shows "store_ok (graph_replaceNodeAttributes g k n)"
proof -
  let ?xs = "map (\<lambda>(k', n'). if k' = k then (k', n) else (k', n')) (g_nodes g)"
  have keys: "map fst ?xs = map fst (g_nodes g)"
    by (rule replace_keys)
  then have img: "fst ` set ?xs = fst ` set (g_nodes g)"
    by (metis list.set_map)
  have 1: "distinct (map fst ?xs)"
    using assms(1) unfolding keys by (simp add: store_ok_iff)
  have 2: "\<forall>(k', n') \<in> set ?xs. node_id n' = k'"
    using assms by (auto simp: store_ok_iff split: if_splits)
  have 4: "\<forall>(key, e) \<in> set (g_edges g). key = edgeKey (source e) (label e) (target e)
            \<and> source e \<in> fst ` set ?xs \<and> target e \<in> fst ` set ?xs
            \<and> target e \<notin> set object_prototype_members"
    unfolding img using assms(1) by (simp add: store_ok_iff)
  have "g_nodes (graph_replaceNodeAttributes g k n) = ?xs"
       "g_edges (graph_replaceNodeAttributes g k n) = g_edges g"
    by (simp_all add: graph_replaceNodeAttributes_def)
  with 1 2 4 assms(1) show ?thesis
    unfolding store_ok_iff by presburger
qed

text \<open>
  The data model holds of the empty graph (\<open>store_ok_new\<close>); every mutation that does
  not give a node another id keeps it, whether it returns or raises (\<open>store_ok_mutate\<close>);
  and it holds of the graph any load leaves (\<open>store_ok_load\<close>, below).
\<close>

lemma store_ok_mutate:
  assumes "store_ok g" and "keeps_id m"
  shows "store_ok (graph_left (mutate g m))"
proof (cases m)
  case (AddNode node)
  have "graph_left (addNode g node) = g \<or> (\<not> graph_hasNode g (node_id node)
      \<and> graph_left (addNode g node) = g\<lparr> g_nodes := g_nodes g @ [(node_id node, node)] \<rparr>)"
    by (auto simp: addNode_def adapter_addNode_def adapter_hasNode_def graph_addNode_def
          Let_def split: if_splits)
  with assms(1) AddNode show ?thesis by (auto simp: store_ok_addNode)
next
  case (UpdateNode i updates)
  have "graph_left (updateNode g i updates) = g \<or> (\<exists>cur. map_of (g_nodes g) i = Some cur
      \<and> graph_left (updateNode g i updates) = graph_replaceNodeAttributes g i (spread cur updates))"
    by (auto simp: updateNode_def adapter_updateNode_def graph_getNodeAttributes_def getNode_eq
          Let_def split: option.splits if_splits)
  moreover have "node_id (spread cur updates) = i" if "map_of (g_nodes g) i = Some cur" for cur
  proof -
    from that have "(i, cur) \<in> set (g_nodes g)" by (rule map_of_SomeD)
    with assms(1) have "node_id cur = i" by (auto simp: store_ok_iff)
    with assms(2) UpdateNode show ?thesis by (auto simp: spread_def)
  qed
  ultimately show ?thesis using assms(1) UpdateNode by (auto simp: store_ok_replace)
next
  case (RemoveNode i)
  have "graph_left (removeNode g i) = g
      \<or> graph_left (removeNode g i) =
          g\<lparr> g_edges := filter (\<lambda>(key, e). source e \<noteq> i \<and> (target e \<noteq> i \<or> source e = ''__proto__''))
                          (g_edges g) \<rparr>
      \<or> graph_left (removeNode g i) =
          g\<lparr> g_nodes := filter (\<lambda>(k, n). k \<noteq> i) (g_nodes g),
              g_edges := filter (\<lambda>(key, e). source e \<noteq> i \<and> target e \<noteq> i) (g_edges g) \<rparr>"
    by (cases "graph_inInherits g i")
       (simp_all add: removeNode_def adapter_removeNode_def dropNode_raises dropNode_returns)
  with assms(1) RemoveNode show ?thesis
    by (auto simp: store_ok_dropNode store_ok_fewer_edges)
next
  case (AddEdge edge)
  let ?g1 = "g\<lparr> g_edges := g_edges g @ [(edgeKey (source edge) (label edge) (target edge), edge)],
              g_in_proto := (if source edge = ''__proto__'' then List.insert (target edge) (g_in_proto g)
                             else g_in_proto g) \<rparr>"
  have "graph_left (addEdge g edge) = g \<or> (graph_hasNode g (source edge) \<and> graph_hasNode g (target edge)
      \<and> \<not> graph_hasEdge g (edgeKey (source edge) (label edge) (target edge))
      \<and> \<not> graph_outDefined g (source edge) (target edge)
      \<and> graph_left (addEdge g edge) = ?g1)"
    by (auto simp: addEdge_def adapter_addEdge_def graph_addEdgeWithKey_def Let_def
          split: option.splits if_splits)
  then consider "graph_left (addEdge g edge) = g"
    | "graph_hasNode g (source edge)" "graph_hasNode g (target edge)"
      "\<not> graph_hasEdge g (edgeKey (source edge) (label edge) (target edge))"
      "\<not> graph_outDefined g (source edge) (target edge)"
      "graph_left (addEdge g edge) = ?g1"
    by blast
  then have "store_ok (graph_left (addEdge g edge))"
  proof cases
    case 1
    with assms(1) show ?thesis by simp
  next
    case 2
    from assms(1) 2(1-4) have "store_ok ?g1"
      by (rule store_ok_addEdge)
    with 2(5) show ?thesis by (simp only:)
  qed
  with AddEdge show ?thesis by simp
next
  case (RemoveEdge src tgt lbl)
  have "graph_left (removeEdge g src tgt lbl) = g
      \<or> graph_left (removeEdge g src tgt lbl) = graph_dropEdge g (edgeKey src lbl tgt)"
    by (auto simp: removeEdge_def adapter_removeEdge_def Let_def split: if_splits)
  with assms(1) RemoveEdge show ?thesis by (auto simp: store_ok_dropEdge)
qed

lemma store_ok_load_nodes: "store_ok g \<Longrightarrow> store_ok (graph_after (load_nodes g ns))"
proof (induction ns arbitrary: g)
  case Nil
  then show ?case by simp
next
  case (Cons n ns)
  show ?case
  proof (cases "graph_hasNode g (node_id n)")
    case True
    with Cons.prems show ?thesis by (simp add: graph_addNode_def)
  next
    case False
    with Cons.prems have "store_ok (g\<lparr> g_nodes := g_nodes g @ [(node_id n, n)] \<rparr>)"
      by (simp add: store_ok_addNode)
    from Cons.IH[OF this] False show ?thesis by (simp add: graph_addNode_def)
  qed
qed

lemma store_ok_load_edges: "store_ok g \<Longrightarrow> store_ok (graph_after (load_edges g es))"
proof (induction es arbitrary: g)
  case Nil
  then show ?case by simp
next
  case (Cons e es)
  let ?key = "edgeKey (source e) (label e) (target e)"
  show ?case
  proof (cases "graph_hasNode g (source e) \<and> graph_hasNode g (target e) \<and> \<not> graph_hasEdge g ?key")
    case False
    with Cons.IH[OF Cons.prems] show ?thesis by (auto simp: Let_def)
  next
    case True
    show ?thesis
    proof (cases "graph_addEdgeWithKey g ?key e")
      case (Inl err)
      with True Cons.prems show ?thesis by (simp add: Let_def)
    next
      case (Inr g1)
      from addEdgeWithKey_returns[OF Inr]
      have p: "graph_hasNode g (source e)" "graph_hasNode g (target e)" "\<not> graph_hasEdge g ?key"
          "\<not> graph_outDefined g (source e) (target e)"
        and g1: "g1 = g\<lparr> g_edges := g_edges g @ [(?key, e)],
            g_in_proto := (if source e = ''__proto__'' then List.insert (target e) (g_in_proto g)
                           else g_in_proto g) \<rparr>"
        by blast+
      have "store_ok g1"
        unfolding g1 using Cons.prems p by (rule store_ok_addEdge)
      from Cons.IH[OF this] True Inr show ?thesis
        by (simp add: Let_def)
    qed
  qed
qed

lemma store_ok_load: "store_ok (graph_after (loadFromEventStormingData g data))"
proof (cases "load_nodes (graph_clear g) (nodes data)")
  case (Inl failure)
  then obtain err g' where f: "failure = (err, g')" by (cases failure)
  with Inl store_ok_load_nodes[OF store_ok_clear, of g "nodes data"] show ?thesis
    by (simp add: loadFromEventStormingData_def)
next
  case (Inr g')
  with store_ok_load_nodes[OF store_ok_clear, of g "nodes data"] have "store_ok g'" by simp
  from store_ok_load_edges[OF this, of "edges data"] Inr show ?thesis
    by (simp add: loadFromEventStormingData_def)
qed

lemma stored_node_id:
  assumes "store_ok g" and "graph_getNodeAttributes g k = Some n"
  shows "node_id n = k"
proof -
  from assms(2) have "(k, n) \<in> set (g_nodes g)"
    by (simp add: graph_getNodeAttributes_def map_of_SomeD)
  with assms(1) show ?thesis
    by (auto simp: store_ok_iff)
qed

section \<open>Properties: graph validation\<close>

lemma validateGraph_isValid: "isValid (validateGraph g) = (errors (validateGraph g) = [])"
  by (simp add: validateGraph_def Let_def)

lemma validateGraph_errors:
  assumes "store_ok g"
  shows "errors (validateGraph g) =
     map (\<lambda>(k, n). CommandWithoutEvent (node_label n))
       (filter (\<lambda>(k, n). node_type n = Command \<and> \<not> has_out_edge g k Lbl_then) (g_nodes g))"
proof -
  let ?test = "\<lambda>c. \<not> list_ex (\<lambda>edge. source edge = node_id c \<and> label edge = Lbl_then) (map snd (g_edges g))"
  have "errors (validateGraph g) =
      map (\<lambda>c. CommandWithoutEvent (node_label c))
        (filter ?test (filter (\<lambda>node. node_type node = Command) (map snd (g_nodes g))))"
    by (simp add: validateGraph_def filterEdges_def getNodesByType_def Let_def)
  also have "\<dots> = map (\<lambda>(k, n). CommandWithoutEvent (node_label n))
        (filter (\<lambda>(k, n). node_type n = Command \<and> ?test n) (g_nodes g))"
    by (simp add: filter_map comp_def case_prod_unfold conj_commute)
  also have "filter (\<lambda>(k, n). node_type n = Command \<and> ?test n) (g_nodes g)
      = filter (\<lambda>(k, n). node_type n = Command \<and> \<not> has_out_edge g k Lbl_then) (g_nodes g)"
  proof (rule filter_cong[OF refl])
    fix x assume xin: "x \<in> set (g_nodes g)"
    obtain k n where x: "x = (k, n)"
      by (cases x)
    with xin assms have "node_id n = k"
      by (auto simp: store_ok_iff)
    then have "?test n = (\<not> has_out_edge g k Lbl_then)"
      by (simp add: has_out_edge_def list_ex_iff case_prod_unfold)
    then show "(case x of (k, n) \<Rightarrow> node_type n = Command \<and> ?test n)
        = (case x of (k, n) \<Rightarrow> node_type n = Command \<and> \<not> has_out_edge g k Lbl_then)"
      by (simp add: x)
  qed
  finally show ?thesis .
qed

text \<open>
  Claim C6, as the code has it. For every graph in which every node is stored under its
  own id (\<open>store_ok\<close>), the errors of \<open>validateGraph\<close> are one "Command ... must generate
  at least one event" per command node without an outgoing then edge, in node order;
  \<open>isValid\<close> holds exactly when there is no error, that is exactly when every command
  node has an outgoing then edge; warnings play no part. Concretely, the graph built from
  a1, c1 and a1 --issues--> c1 gets the error for c1, and after adding e1 and
  c1 --then--> e1 the result is valid with no error.
\<close>

theorem validateGraph_commands:
  assumes "store_ok g"
  shows "errors (validateGraph g) =
       map (\<lambda>(k, n). CommandWithoutEvent (node_label n))
         (filter (\<lambda>(k, n). node_type n = Command \<and> \<not> has_out_edge g k Lbl_then) (g_nodes g))
   \<and> (isValid (validateGraph g) \<longleftrightarrow> errors (validateGraph g) = [])
   \<and> (isValid (validateGraph g) \<longleftrightarrow>
        (\<forall>(k, n) \<in> set (g_nodes g). node_type n = Command \<longrightarrow> has_out_edge g k Lbl_then))
   \<and> mutate_all graph_new [AddNode actor_a1, AddNode command_c1, AddEdge issues_a1_c1] = Inr graph_a1_c1
   \<and> validateGraph graph_a1_c1 =
       \<lparr> isValid = False, errors = [CommandWithoutEvent ''Place order''], warnings = [] \<rparr>
   \<and> mutate_all graph_a1_c1 [AddNode event_e1, AddEdge then_c1_e1] = Inr graph_a1_c1_e1
   \<and> validateGraph graph_a1_c1_e1 = \<lparr> isValid = True, errors = [], warnings = [] \<rparr>"
proof -
  note e = validateGraph_errors[OF assms]
  have a: "(isValid (validateGraph g) \<longleftrightarrow>
        (\<forall>(k, n) \<in> set (g_nodes g). node_type n = Command \<longrightarrow> has_out_edge g k Lbl_then))"
    unfolding validateGraph_isValid e
    by (auto simp: filter_empty_conv)
  have b: "mutate_all graph_new [AddNode actor_a1, AddNode command_c1, AddEdge issues_a1_c1] = Inr graph_a1_c1"
    by code_simp
  have c: "validateGraph graph_a1_c1 =
       \<lparr> isValid = False, errors = [CommandWithoutEvent ''Place order''], warnings = [] \<rparr>"
    by code_simp
  have d: "mutate_all graph_a1_c1 [AddNode event_e1, AddEdge then_c1_e1] = Inr graph_a1_c1_e1"
    by code_simp
  have f: "validateGraph graph_a1_c1_e1 = \<lparr> isValid = True, errors = [], warnings = [] \<rparr>"
    by code_simp
  show ?thesis
    using e validateGraph_isValid a b c d f by blast
qed

theorem validateGraph_commands_witness:
  "store_ok graph_a1_c1
   \<and> \<not> has_out_edge graph_a1_c1 ''c1'' Lbl_then
   \<and> errors (validateGraph graph_a1_c1) = [CommandWithoutEvent ''Place order'']
   \<and> store_ok graph_a1_c1_e1
   \<and> has_out_edge graph_a1_c1_e1 ''c1'' Lbl_then
   \<and> errors (validateGraph graph_a1_c1_e1) = []"
proof -
  have s1: "store_ok graph_a1_c1" and s2: "store_ok graph_a1_c1_e1"
    by code_simp+
  have h1: "\<not> has_out_edge graph_a1_c1 ''c1'' Lbl_then"
    and h2: "has_out_edge graph_a1_c1_e1 ''c1'' Lbl_then"
    by code_simp+
  have r1: "map (\<lambda>(k, n). CommandWithoutEvent (node_label n))
         (filter (\<lambda>(k, n). node_type n = Command \<and> \<not> has_out_edge graph_a1_c1 k Lbl_then)
            (g_nodes graph_a1_c1)) = [CommandWithoutEvent ''Place order'']"
    by code_simp
  have r2: "map (\<lambda>(k, n). CommandWithoutEvent (node_label n))
         (filter (\<lambda>(k, n). node_type n = Command \<and> \<not> has_out_edge graph_a1_c1_e1 k Lbl_then)
            (g_nodes graph_a1_c1_e1)) = []"
    by code_simp
  from validateGraph_commands [OF s1] r1
  have e1: "errors (validateGraph graph_a1_c1) = [CommandWithoutEvent ''Place order'']"
    by simp
  from validateGraph_commands [OF s2] r2
  have e2: "errors (validateGraph graph_a1_c1_e1) = []"
    by simp
  from s1 s2 h1 h2 e1 e2 show ?thesis
    by (intro conjI)
qed

text \<open>
  Claim C6 as stated fails where a node is not stored under its own id. The graph of the
  command c1, the event e1 and c1 --then--> e1, after \<open>updateNode\<close> with the updates
  \<^verbatim>\<open>{id: 'c9'}\<close> on c1, has one command node, stored under the key c1, and that node has
  the outgoing then edge to e1; yet \<open>validateGraph\<close> reports the error for it and returns
  \<open>isValid = False\<close>, since it looks for an edge whose source is the id c9.
\<close>

theorem validateGraph_renamed_command_counterexample:
  "mutate_all graph_new
     [AddNode command_c1, AddNode event_e1, AddEdge then_c1_e1,
      UpdateNode ''c1'' (no_updates\<lparr> upd_id := Some ''c9'' \<rparr>)] = Inr graph_c9
   \<and> filter (\<lambda>(k, n). node_type n = Command) (g_nodes graph_c9)
       = [(''c1'', command_c1\<lparr> node_id := ''c9'' \<rparr>)]
   \<and> has_out_edge graph_c9 ''c1'' Lbl_then
   \<and> graph_outEdges graph_c9 ''c1'' = [then_c1_e1]
   \<and> validateGraph graph_c9 =
       \<lparr> isValid = False, errors = [CommandWithoutEvent ''Place order''],
         warnings = [OrphanedNodes [''Place order'']] \<rparr>"
  by code_simp

section \<open>Properties: load, export and import\<close>

lemma load_nodes_fresh:
  assumes "distinct (map node_id ns)" and "\<forall>n \<in> set ns. \<not> graph_hasNode g (node_id n)"
  shows "load_nodes g ns = Inr (g\<lparr> g_nodes := g_nodes g @ map (\<lambda>n. (node_id n, n)) ns \<rparr>)"
  using assms
proof (induction ns arbitrary: g)
  case Nil
  then show ?case by simp
next
  case (Cons n ns)
  let ?g1 = "g\<lparr> g_nodes := g_nodes g @ [(node_id n, n)] \<rparr>"
  have "\<forall>m \<in> set ns. \<not> graph_hasNode ?g1 (node_id m)"
  proof
    fix m assume m: "m \<in> set ns"
    have "node_id n \<notin> node_id ` set ns"
      using Cons.prems(1) by simp
    with m have "node_id m \<noteq> node_id n"
      by (metis imageI)
    moreover have "node_id m \<notin> fst ` set (g_nodes g)"
      using Cons.prems(2) m by (simp add: hasNode_iff)
    ultimately show "\<not> graph_hasNode ?g1 (node_id m)"
      by (simp add: hasNode_iff)
  qed
  moreover have "distinct (map node_id ns)"
    using Cons.prems by simp
  ultimately have "load_nodes ?g1 ns = Inr (?g1\<lparr> g_nodes := g_nodes ?g1 @ map (\<lambda>n. (node_id n, n)) ns \<rparr>)"
    by (rule Cons.IH[rotated])
  with Cons.prems show ?case
    by (simp add: graph_addNode_def)
qed





lemma one_label_per_pair_iff:
  "one_label_per_pair es \<longleftrightarrow>
     (\<forall>e \<in> set es. \<forall>e' \<in> set es. source e = source e' \<and> target e = target e' \<longrightarrow> label e = label e')"
  by (simp add: one_label_per_pair_def list_all_iff)

lemma one_label_per_pairD:
  "one_label_per_pair xs \<Longrightarrow> a \<in> set xs \<Longrightarrow> b \<in> set xs
     \<Longrightarrow> source a = source b \<Longrightarrow> target a = target b \<Longrightarrow> label a = label b"
  unfolding one_label_per_pair_iff by blast

lemma one_label_per_pair_mono:
  "one_label_per_pair xs \<Longrightarrow> set ys \<subseteq> set xs \<Longrightarrow> one_label_per_pair ys"
  unfolding one_label_per_pair_iff by blast

lemma load_edges_no_throw:
  assumes "store_ok g" and "fst ` set (g_nodes g) = K"
    and "one_label_per_pair (map snd (g_edges g) @ filter (\<lambda>e. source e \<in> K \<and> target e \<in> K) es)"
    and "\<forall>e \<in> set es. source e \<in> K \<and> target e \<in> K \<longrightarrow> target e \<notin> set object_prototype_members"
  shows "\<exists>g' ys. load_edges g es = Inr g' \<and> g_nodes g' = g_nodes g
     \<and> g_edges g' = g_edges g @ ys \<and> set (map snd ys) \<subseteq> set es
     \<and> (\<forall>e \<in> set es. source e \<in> K \<and> target e \<in> K
            \<longrightarrow> graph_hasEdge g' (edgeKey (source e) (label e) (target e)))"
  using assms
proof (induction es arbitrary: g)
  case Nil
  then show ?case by simp
next
  case (Cons e es)
  let ?key = "edgeKey (source e) (label e) (target e)"
  let ?att = "\<lambda>e. source e \<in> K \<and> target e \<in> K"
  have hn: "graph_hasNode g k \<longleftrightarrow> k \<in> K" for k
    using Cons.prems(2) by (simp add: hasNode_iff)
  have compat: "one_label_per_pair (map snd (g_edges g) @ filter ?att es)"
    using Cons.prems(3) by (rule one_label_per_pair_mono) auto
  have members: "\<forall>e \<in> set es. ?att e \<longrightarrow> target e \<notin> set object_prototype_members"
    using Cons.prems(4) by simp
  show ?case
  proof (cases "?att e \<and> \<not> graph_hasEdge g ?key")
    case False
    from Cons.IH[OF Cons.prems(1,2) compat members] obtain g' ys where
      ih: "load_edges g es = Inr g'" "g_nodes g' = g_nodes g" "g_edges g' = g_edges g @ ys"
        "set (map snd ys) \<subseteq> set es"
        "\<forall>e \<in> set es. ?att e \<longrightarrow> graph_hasEdge g' (edgeKey (source e) (label e) (target e))"
      by blast
    have l: "load_edges g (e # es) = Inr g'"
      using False ih(1) by (auto simp: Let_def hn)
    have "graph_hasEdge g' ?key" if "?att e"
      using that False ih(3) by (auto simp: hasEdge_iff)
    then have "\<forall>e' \<in> set (e # es). ?att e'
            \<longrightarrow> graph_hasEdge g' (edgeKey (source e') (label e') (target e'))"
      using ih(5) by simp
    moreover have "set (map snd ys) \<subseteq> set (e # es)"
      using ih(4) by auto
    ultimately show ?thesis
      using l ih(2,3) by blast
  next
    case True
    have nm: "target e \<notin> set object_prototype_members"
      using Cons.prems(4) True by simp
    have nl: "(source e, target e) \<notin> set (map (\<lambda>(key, e). (source e, target e)) (g_edges g))"
    proof
      assume "(source e, target e) \<in> set (map (\<lambda>(key, e). (source e, target e)) (g_edges g))"
      then obtain k e' where ke: "(k, e') \<in> set (g_edges g)" "source e' = source e" "target e' = target e"
        by auto
      have "e' \<in> set (map snd (g_edges g) @ filter ?att (e # es))"
          "e \<in> set (map snd (g_edges g) @ filter ?att (e # es))"
        using ke(1) True by force+
      with Cons.prems(3) ke(2,3) have "label e' = label e"
        by (meson one_label_per_pairD)
      moreover have "k = edgeKey (source e') (label e') (target e')"
        using Cons.prems(1) ke(1) by (auto simp: store_ok_iff)
      ultimately have "(?key, e') \<in> set (g_edges g)"
        using ke by simp
      then have "graph_hasEdge g ?key"
        by (force simp: hasEdge_iff)
      with True show False by simp
    qed
    have nd: "\<not> graph_outDefined g (source e) (target e)"
      using nm nl by (simp add: outDefined_iff)
    let ?g1 = "g\<lparr> g_edges := g_edges g @ [(?key, e)],
        g_in_proto := (if source e = ''__proto__'' then List.insert (target e) (g_in_proto g)
                       else g_in_proto g) \<rparr>"
    have add: "graph_addEdgeWithKey g ?key e = Inr ?g1"
      using True nd by (simp add: graph_addEdgeWithKey_def hn)
    have ok1: "store_ok ?g1"
      using Cons.prems(1) True nd by (intro store_ok_addEdge) (simp_all add: hn)
    have k1: "fst ` set (g_nodes ?g1) = K"
      using Cons.prems(2) by simp
    have compat1: "one_label_per_pair (map snd (g_edges ?g1) @ filter ?att es)"
      using Cons.prems(3) True by (intro one_label_per_pair_mono[OF Cons.prems(3)]) auto
    from Cons.IH[OF ok1 k1 compat1 members] obtain g' ys where
      ih: "load_edges ?g1 es = Inr g'" "g_nodes g' = g_nodes ?g1" "g_edges g' = g_edges ?g1 @ ys"
        "set (map snd ys) \<subseteq> set es"
        "\<forall>e \<in> set es. ?att e \<longrightarrow> graph_hasEdge g' (edgeKey (source e) (label e) (target e))"
      by blast
    have l: "load_edges g (e # es) = Inr g'"
      using True add ih(1) by (simp add: Let_def hn)
    have h: "graph_hasEdge g' ?key"
      using ih(3) by (simp add: hasEdge_iff)
    have "g_edges g' = g_edges g @ ((?key, e) # ys)"
      using ih(3) by simp
    moreover have "set (map snd ((?key, e) # ys)) \<subseteq> set (e # es)"
      using ih(4) by auto
    moreover have "\<forall>e' \<in> set (e # es). ?att e'
            \<longrightarrow> graph_hasEdge g' (edgeKey (source e') (label e') (target e'))"
      using ih(5) h by simp
    moreover have "g_nodes g' = g_nodes g"
      using ih(2) by simp
    ultimately show ?thesis
      using l by blast
  qed
qed

text \<open>
  Claim C10, as the code has it. For every snapshot whose node ids are pairwise distinct
  and in which, among the edges with both endpoints among the nodes, no two join the same
  source to the same target under different labels and none has a target named like a
  member of \<^verbatim>\<open>Object.prototype\<close>: the load returns; it stores the nodes of the snapshot;
  every stored edge is an edge of the snapshot whose source and target are stored nodes;
  no two stored edges have the same key; every edge of the snapshot with both endpoints
  among the nodes has its key stored, so the edges left out are those with a missing
  endpoint or a key already stored; and \<open>importFromJSON\<close> returns \<open>isValid = True\<close> with
  no error, its warnings being those of \<open>validateGraph\<close>.
\<close>

theorem import_lenient_snapshot:
  assumes "distinct (map node_id ns)"
    and "one_label_per_pair (snapshot_attached ns es)"
    and "list_all (\<lambda>e. target e \<notin> set object_prototype_members) (snapshot_attached ns es)"
  shows "\<exists>g'. loadFromEventStormingData g \<lparr> nodes = ns, edges = es \<rparr> = Inr g'
     \<and> map snd (g_nodes g') = ns
     \<and> (\<forall>e \<in> set (map snd (g_edges g')).
           e \<in> set es \<and> graph_hasNode g' (source e) \<and> graph_hasNode g' (target e))
     \<and> distinct (map fst (g_edges g'))
     \<and> (\<forall>e \<in> set es. source e \<in> set (map node_id ns) \<and> target e \<in> set (map node_id ns)
           \<longrightarrow> graph_hasEdge g' (edgeKey (source e) (label e) (target e)))
     \<and> importFromJSON g (Parsed (Some ns) (Some es))
         = (\<lparr> isValid = True, errors = [], warnings = warnings (validateGraph g') \<rparr>, g')"
proof -
  let ?c = "graph_clear g"
  let ?K = "set (map node_id ns)"
  let ?g1 = "\<lparr> g_nodes = map (\<lambda>n. (node_id n, n)) ns, g_edges = [], g_in_proto = [] \<rparr>"
  have "load_nodes ?c ns = Inr (?c\<lparr> g_nodes := g_nodes ?c @ map (\<lambda>n. (node_id n, n)) ns \<rparr>)"
    using assms(1) by (intro load_nodes_fresh) (simp_all add: hasNode_iff graph_clear_def)
  then have n: "load_nodes ?c ns = Inr ?g1"
    by (simp add: graph_clear_def)
  have ok1: "store_ok ?g1"
    using store_ok_load_nodes[OF store_ok_clear, of g ns] n by simp
  have k1: "fst ` set (g_nodes ?g1) = ?K"
    by (simp add: image_image)
  have c1: "one_label_per_pair (map snd (g_edges ?g1) @ filter (\<lambda>e. source e \<in> ?K \<and> target e \<in> ?K) es)"
    using assms(2) by (simp add: snapshot_attached_def)
  have m1: "\<forall>e \<in> set es. source e \<in> ?K \<and> target e \<in> ?K \<longrightarrow> target e \<notin> set object_prototype_members"
    using assms(3) by (simp add: snapshot_attached_def list_all_iff)
  from load_edges_no_throw[OF ok1 k1 c1 m1] obtain g' ys where
    l: "load_edges ?g1 es = Inr g'" "g_nodes g' = g_nodes ?g1" "g_edges g' = g_edges ?g1 @ ys"
      "set (map snd ys) \<subseteq> set es"
      "\<forall>e \<in> set es. source e \<in> ?K \<and> target e \<in> ?K
            \<longrightarrow> graph_hasEdge g' (edgeKey (source e) (label e) (target e))"
    by blast
  have ld: "loadFromEventStormingData g \<lparr> nodes = ns, edges = es \<rparr> = Inr g'"
    using n l(1) by (simp add: loadFromEventStormingData_def)
  have ok: "store_ok g'"
    using store_ok_load[of g "\<lparr> nodes = ns, edges = es \<rparr>"] ld by simp
  have 1: "map snd (g_nodes g') = ns"
    using l(2) by (simp add: comp_def)
  have 2: "\<forall>e \<in> set (map snd (g_edges g')).
           e \<in> set es \<and> graph_hasNode g' (source e) \<and> graph_hasNode g' (target e)"
    using ok l(3,4) by (auto simp: store_ok_iff hasNode_iff)
  have 3: "distinct (map fst (g_edges g'))"
    using ok by (simp add: store_ok_iff)
  have 5: "importFromJSON g (Parsed (Some ns) (Some es))
         = (\<lparr> isValid = True, errors = [], warnings = warnings (validateGraph g') \<rparr>, g')"
    using ld by (simp add: importFromJSON_def)
  show ?thesis
    using ld 1 2 3 l(5) 5 by blast
qed

theorem import_lenient_snapshot_witness:
  "distinct (map node_id [actor_a1, command_c1])
   \<and> snapshot_attached [actor_a1, command_c1]
        [issues_a1_c1, issues_a1_c1, \<lparr> source = ''a1'', target = ''zz'', label = Lbl_issues \<rparr>,
         \<lparr> source = ''a1'', target = ''zz'', label = Lbl_on \<rparr>,
         \<lparr> source = ''zz'', target = ''constructor'', label = Lbl_then \<rparr>]
       = [issues_a1_c1, issues_a1_c1]
   \<and> one_label_per_pair [issues_a1_c1, issues_a1_c1]
   \<and> list_all (\<lambda>e. target e \<notin> set object_prototype_members) [issues_a1_c1, issues_a1_c1]
   \<and> loadFromEventStormingData graph_new
        \<lparr> nodes = [actor_a1, command_c1],
          edges = [issues_a1_c1, issues_a1_c1, \<lparr> source = ''a1'', target = ''zz'', label = Lbl_issues \<rparr>,
                   \<lparr> source = ''a1'', target = ''zz'', label = Lbl_on \<rparr>,
                   \<lparr> source = ''zz'', target = ''constructor'', label = Lbl_then \<rparr>] \<rparr>
       = Inr graph_a1_c1
   \<and> importFromJSON graph_new
        (Parsed (Some [actor_a1, command_c1])
           (Some [issues_a1_c1, issues_a1_c1, \<lparr> source = ''a1'', target = ''zz'', label = Lbl_issues \<rparr>,
                  \<lparr> source = ''a1'', target = ''zz'', label = Lbl_on \<rparr>,
                  \<lparr> source = ''zz'', target = ''constructor'', label = Lbl_then \<rparr>]))
       = (\<lparr> isValid = True, errors = [], warnings = [] \<rparr>, graph_a1_c1)"
proof -
  let ?es = "[issues_a1_c1, issues_a1_c1, \<lparr> source = ''a1'', target = ''zz'', label = Lbl_issues \<rparr>,
              \<lparr> source = ''a1'', target = ''zz'', label = Lbl_on \<rparr>,
              \<lparr> source = ''zz'', target = ''constructor'', label = Lbl_then \<rparr>]"
  have h1: "distinct (map node_id [actor_a1, command_c1])"
    by code_simp
  have a: "snapshot_attached [actor_a1, command_c1] ?es = [issues_a1_c1, issues_a1_c1]"
    by code_simp
  have b: "one_label_per_pair [issues_a1_c1, issues_a1_c1]"
    by code_simp
  have c: "list_all (\<lambda>e. target e \<notin> set object_prototype_members) [issues_a1_c1, issues_a1_c1]"
    by code_simp
  have h2: "one_label_per_pair (snapshot_attached [actor_a1, command_c1] ?es)"
    unfolding a by (rule b)
  have h3: "list_all (\<lambda>e. target e \<notin> set object_prototype_members)
        (snapshot_attached [actor_a1, command_c1] ?es)"
    unfolding a by (rule c)
  have l: "loadFromEventStormingData graph_new \<lparr> nodes = [actor_a1, command_c1], edges = ?es \<rparr>
       = Inr graph_a1_c1"
    by code_simp
  have w: "warnings (validateGraph graph_a1_c1) = []"
    by code_simp
  from import_lenient_snapshot [OF h1 h2 h3, of graph_new] l w
  have "importFromJSON graph_new (Parsed (Some [actor_a1, command_c1]) (Some ?es))
       = (\<lparr> isValid = True, errors = [], warnings = [] \<rparr>, graph_a1_c1)"
    by auto
  with h1 a b c l show ?thesis
    by (intro conjI)
qed

text \<open>
  Claim C10 as stated fails at three snapshots, where the library raises during the
  load and \<open>importFromJSON\<close> catches the exception and returns \<open>isValid = False\<close> with
  "Failed to parse JSON", leaving the graph with what was added before: a snapshot that
  lists the node a1 twice; a snapshot with two edges from a1 to c1 under different
  labels, both nodes being in the snapshot; and a snapshot with an edge from c1 to a node
  whose id is \<^verbatim>\<open>constructor\<close>, both nodes being in the snapshot.
\<close>

theorem import_rejected_snapshots_counterexample:
  "importFromJSON graph_new (Parsed (Some [actor_a1, actor_a1]) (Some []))
     = (\<lparr> isValid = False, errors = [FailedToParse], warnings = [] \<rparr>,
        \<lparr> g_nodes = [(''a1'', actor_a1)], g_edges = [], g_in_proto = [] \<rparr>)
   \<and> importFromJSON graph_new
       (Parsed (Some [actor_a1, command_c1])
          (Some [issues_a1_c1, \<lparr> source = ''a1'', target = ''c1'', label = Lbl_supports_decision_for \<rparr>]))
     = (\<lparr> isValid = False, errors = [FailedToParse], warnings = [] \<rparr>, graph_a1_c1)
   \<and> importFromJSON graph_new
       (Parsed (Some [command_c1, event_constructor]) (Some [then_c1_constructor]))
     = (\<lparr> isValid = False, errors = [FailedToParse], warnings = [] \<rparr>,
        \<lparr> g_nodes = [(''c1'', command_c1), (''constructor'', event_constructor)], g_edges = [],
          g_in_proto = [] \<rparr>)"
  by code_simp

section \<open>Properties: neighbours and out-edges\<close>

lemma set_own_keys: "set (own_keys ks) = set ks"
  by (auto simp: own_keys_def)

lemma distinct_own_keys: "distinct ks \<Longrightarrow> distinct (own_keys ks)"
  by (auto simp: own_keys_def)

lemma distinct_outNeighbors: "distinct (graph_outNeighbors g k)"
  by (simp add: graph_outNeighbors_def distinct_own_keys)

lemma outNeighbors_iff: "nb \<in> set (graph_outNeighbors g k) \<longleftrightarrow> (k, nb) \<in> edge_rel g"
  by (force simp: graph_outNeighbors_def set_own_keys edge_rel_def)

lemma set_outEdges:
  "e \<in> set (graph_outEdges g k) \<longleftrightarrow> e \<in> snd ` set (g_edges g) \<and> source e = k"
proof
  assume "e \<in> set (graph_outEdges g k)"
  then show "e \<in> snd ` set (g_edges g) \<and> source e = k"
    by (auto simp: graph_outEdges_def)
next
  assume e: "e \<in> snd ` set (g_edges g) \<and> source e = k"
  then have "target e \<in> set (graph_outNeighbors g k)"
    by (force simp: graph_outNeighbors_def set_own_keys)
  with e show "e \<in> set (graph_outEdges g k)"
    by (auto simp: graph_outEdges_def)
qed

lemma has_out_edge_iff:
  "has_out_edge g k lbl \<longleftrightarrow> (\<exists>e \<in> set (graph_outEdges g k). label e = lbl)"
  by (force simp: has_out_edge_def list_ex_iff Bex_def set_outEdges)

lemma map_filter_append: "List.map_filter f (xs @ ys) = List.map_filter f xs @ List.map_filter f ys"
  by (simp add: List.map_filter_def)

lemma last_map_filter:
  assumes "ps \<noteq> []" and "f (last ps) = Some n"
  shows "List.map_filter f ps \<noteq> [] \<and> last (List.map_filter f ps) = n"
proof -
  from assms(1) obtain xs where "ps = xs @ [last ps]"
    by (metis append_butlast_last_id)
  then have "List.map_filter f ps = List.map_filter f xs @ List.map_filter f [last ps]"
    by (metis map_filter_append)
  with assms(2) show ?thesis
    by (simp add: List.map_filter_def)
qed

lemma set_map_filter_iff: "y \<in> set (List.map_filter f xs) \<longleftrightarrow> (\<exists>x \<in> set xs. f x = Some y)"
  by (induction xs) (auto simp: List.map_filter_def)

lemma map_filter_empty_iff: "List.map_filter f xs = [] \<longleftrightarrow> (\<forall>x \<in> set xs. f x = None)"
  by (induction xs) (auto simp: List.map_filter_def)

lemma outNeighbor_resolves:
  assumes "store_ok g" and "event \<in> set (getOutNeighborsByLabel g c lbl)"
  shows "adapter_getNode g (node_id event) = Some event"
proof -
  from assms(2) obtain edge :: EventStormingEdge
    where "graph_getNodeAttributes g (target edge) = Some event"
    by (auto simp: getOutNeighborsByLabel_def set_map_filter_iff split: if_splits)
  with stored_node_id[OF assms(1) this] show ?thesis
    by (simp add: getNode_eq graph_getNodeAttributes_def)
qed

lemma outNeighborsByLabel_empty_iff:
  assumes "store_ok g"
  shows "getOutNeighborsByLabel g k lbl \<noteq> [] \<longleftrightarrow> has_out_edge g k lbl"
proof -
  have stored: "graph_getNodeAttributes g (target e) \<noteq> None \<and> graph_hasNode g k"
    if "e \<in> set (graph_outEdges g k)" for e
  proof -
    from that obtain key where "(key, e) \<in> set (g_edges g)" "source e = k"
      unfolding set_outEdges by auto
    with assms have "target e \<in> fst ` set (g_nodes g)" "k \<in> fst ` set (g_nodes g)"
      by (auto simp: store_ok_iff)
    then show ?thesis
      by (simp add: graph_getNodeAttributes_def map_of_eq_None_iff hasNode_iff)
  qed
  show ?thesis
  proof
    assume "getOutNeighborsByLabel g k lbl \<noteq> []"
    then show "has_out_edge g k lbl"
      unfolding has_out_edge_iff
      by (auto simp: getOutNeighborsByLabel_def map_filter_empty_iff split: if_splits)
  next
    assume "has_out_edge g k lbl"
    then obtain e where e: "e \<in> set (graph_outEdges g k)" "label e = lbl"
      unfolding has_out_edge_iff by blast
    with stored[OF e(1)] show "getOutNeighborsByLabel g k lbl \<noteq> []"
      by (auto simp: getOutNeighborsByLabel_def map_filter_empty_iff)
  qed
qed

lemma node_has_out_edge_iff:
  assumes "store_ok g" and "adapter_getNode g (node_id n) = Some n"
  shows "node_has_out_edge g n lbl \<longleftrightarrow> has_out_edge g (node_id n) lbl"
proof
  assume "node_has_out_edge g n lbl"
  then obtain k where "(k, n) \<in> set (g_nodes g)" "has_out_edge g k lbl"
    by (auto simp: node_has_out_edge_def list_ex_iff)
  moreover from this(1) assms(1) have "node_id n = k"
    by (auto simp: store_ok_iff)
  ultimately show "has_out_edge g (node_id n) lbl"
    by simp
next
  assume h: "has_out_edge g (node_id n) lbl"
  from assms(2) have "(node_id n, n) \<in> set (g_nodes g)"
    by (simp add: getNode_eq map_of_SomeD)
  with h show "node_has_out_edge g n lbl"
    by (auto simp: node_has_out_edge_def list_ex_iff)
qed

section \<open>Properties: command execution paths\<close>

lemma dfs_ends_at_target:
  "ps \<in> set (dfs g targetId maxLength visited currentId p) \<Longrightarrow> ps \<noteq> [] \<and> last ps = targetId"
proof (induction g targetId maxLength visited currentId p rule: dfs.induct)
  case (1 g targetId maxLength visited currentId p)
  show ?case
  proof (cases "length p > maxLength \<or> currentId = targetId \<or> currentId \<in> set visited")
    case True
    with "1.prems" show ?thesis
      by (subst (asm) dfs.simps) (auto split: if_splits)
  next
    case False
    with "1.prems" obtain nb where nb: "nb \<in> set (graph_outNeighbors g currentId)"
        and "ps \<in> set (dfs g targetId maxLength (currentId # visited) nb (p @ [currentId]))"
      by (subst (asm) dfs.simps) auto
    with False "1.IH"[of nb] show ?thesis
      by auto
  qed
qed

lemma findAllPaths_ends_at_target:
  assumes "ps \<in> set (findAllPaths g s t n)"
  shows "ps \<noteq> [] \<and> last ps = t \<and> graph_hasNode g t"
  using assms dfs_ends_at_target[of ps g t n "[]" s "[]"]
  by (auto simp: findAllPaths_def split: if_splits)

text \<open>
  Claim C8, as the code has it. For every graph in which every node is stored under its
  own id (\<open>store_ok\<close>), every entry of the paths that \<open>getCommandExecutionPaths\<close> returns
  for a command has a path that ends at a node E that is a then out-neighbour of the
  command, and its \<open>pathType\<close> is POLICY_PATH if E has an outgoing then (policy) edge,
  whatever its label; otherwise ERROR_PATH if the label of E, in lower case, contains
  "error" or "failed"; otherwise HAPPY_PATH.
\<close>

theorem execution_path_classification:
  assumes "store_ok g" and "entry \<in> set (snd (getCommandExecutionPaths g C))"
  shows "path entry \<noteq> []
     \<and> last (path entry) \<in> set (getOutNeighborsByLabel g C Lbl_then)
     \<and> pathType entry =
         (if node_has_out_edge g (last (path entry)) Lbl_then_policy then POLICY_PATH
          else if names_failure (node_label (last (path entry))) then ERROR_PATH
          else HAPPY_PATH)"
proof -
  from assms(2) obtain command event pathIds where
    ev: "event \<in> set (getOutNeighborsByLabel g C Lbl_then)"
    and ps: "pathIds \<in> set (findAllPaths g C (node_id event) 5)"
    and p: "path entry = List.map_filter (adapter_getNode g) pathIds"
    and t: "pathType entry =
         (if getOutNeighborsByLabel g (node_id event) Lbl_then_policy \<noteq> [] then POLICY_PATH
          else if names_failure (node_label event) then ERROR_PATH
          else HAPPY_PATH)"
    by (auto simp: getCommandExecutionPaths_def names_failure_def Let_def
          split: option.splits if_splits)
  from findAllPaths_ends_at_target[OF ps]
  have e: "pathIds \<noteq> []" "last pathIds = node_id event"
    by simp_all
  have r: "adapter_getNode g (node_id event) = Some event"
    by (rule outNeighbor_resolves[OF assms(1) ev])
  then have "adapter_getNode g (last pathIds) = Some event"
    using e(2) by simp
  from last_map_filter[of pathIds "adapter_getNode g" event, OF e(1) this] p
  have l: "path entry \<noteq> []" "last (path entry) = event"
    by simp_all
  have "getOutNeighborsByLabel g (node_id event) Lbl_then_policy \<noteq> []
      \<longleftrightarrow> node_has_out_edge g event Lbl_then_policy"
    unfolding outNeighborsByLabel_empty_iff[OF assms(1)] node_has_out_edge_iff[OF assms(1) r] ..
  with t have "pathType entry =
         (if node_has_out_edge g event Lbl_then_policy then POLICY_PATH
          else if names_failure (node_label event) then ERROR_PATH
          else HAPPY_PATH)"
    by simp
  with l ev show ?thesis
    by simp
qed

theorem execution_path_classification_witness:
  "store_ok graph_outcomes
   \<and> snd (getCommandExecutionPaths graph_outcomes ''c1'') =
       [\<lparr> path = [command_c1, event_e1], pathType = HAPPY_PATH,
           description = (''Place order'', ''Order placed'', False) \<rparr>,
        \<lparr> path = [command_c1, event_e2], pathType = ERROR_PATH,
           description = (''Place order'', ''Payment Failed'', False) \<rparr>,
        \<lparr> path = [command_c1, event_e3], pathType = POLICY_PATH,
           description = (''Place order'', ''Stock ERROR'', True) \<rparr>]
   \<and> node_has_out_edge graph_outcomes event_e3 Lbl_then_policy
   \<and> names_failure (node_label event_e3)
   \<and> \<not> node_has_out_edge graph_outcomes event_e2 Lbl_then_policy
   \<and> names_failure (node_label event_e2)"
proof -
  let ?entry = "\<lparr> path = [command_c1, event_e3], pathType = POLICY_PATH,
           description = (''Place order'', ''Stock ERROR'', True) \<rparr>"
  have s: "store_ok graph_outcomes"
    by code_simp
  have r: "snd (getCommandExecutionPaths graph_outcomes ''c1'') =
       [\<lparr> path = [command_c1, event_e1], pathType = HAPPY_PATH,
           description = (''Place order'', ''Order placed'', False) \<rparr>,
        \<lparr> path = [command_c1, event_e2], pathType = ERROR_PATH,
           description = (''Place order'', ''Payment Failed'', False) \<rparr>,
        ?entry]"
    by code_simp
  have m: "?entry \<in> set (snd (getCommandExecutionPaths graph_outcomes ''c1''))"
    unfolding r by simp
  have n: "names_failure (node_label event_e3)" "names_failure (node_label event_e2)"
      "\<not> node_has_out_edge graph_outcomes event_e2 Lbl_then_policy"
    by code_simp+
  from execution_path_classification [OF s m]
  have "pathType ?entry =
         (if node_has_out_edge graph_outcomes (last (path ?entry)) Lbl_then_policy then POLICY_PATH
          else if names_failure (node_label (last (path ?entry))) then ERROR_PATH
          else HAPPY_PATH)"
    by (elim conjE)
  then have "node_has_out_edge graph_outcomes event_e3 Lbl_then_policy"
    by (simp split: if_splits)
  with s r n show ?thesis
    by simp
qed

text \<open>
  Claim C8 as stated fails where a node is not stored under its own id. Three \<open>addNode\<close>,
  two \<open>addEdge\<close> and \<open>updateNode\<close> with the updates \<^verbatim>\<open>{id: 'e2'}\<close> on e1 build the graph
  of the command c1 with the then edges to the nodes stored under e1 and e2, all six
  returning \<open>isValid = True\<close>. The first entry returned for c1 has a path that ends at
  "Payment Failed", a node without an outgoing then (policy) edge whose label contains
  "failed"; its \<open>pathType\<close> is HAPPY_PATH, because it is classified by the label of the
  node stored under e1, "Order placed".
\<close>

theorem execution_path_renamed_event_counterexample:
  "mutate_all graph_new
     [AddNode command_c1, AddNode event_e1, AddNode event_e2, AddEdge then_c1_e1, AddEdge then_c1_e2,
      UpdateNode ''e1'' (no_updates\<lparr> upd_id := Some ''e2'' \<rparr>)] = Inr graph_two_e2
   \<and> snd (getCommandExecutionPaths graph_two_e2 ''c1'') =
       [\<lparr> path = [command_c1, event_e2], pathType = HAPPY_PATH,
           description = (''Place order'', ''Order placed'', False) \<rparr>,
        \<lparr> path = [command_c1, event_e2], pathType = ERROR_PATH,
           description = (''Place order'', ''Payment Failed'', False) \<rparr>]
   \<and> \<not> node_has_out_edge graph_two_e2 event_e2 Lbl_then_policy
   \<and> names_failure (node_label event_e2)"
  by code_simp

section \<open>Properties: impact analysis\<close>

lemma rtrancl_avoid_or_through:
  assumes "(a, v) \<in> R\<^sup>*"
  shows "(a, v) \<in> (R \<inter> (- {c}) \<times> (- {c}))\<^sup>* \<or> v = c
     \<or> (\<exists>nb. (c, nb) \<in> R \<and> nb \<noteq> c \<and> (nb, v) \<in> (R \<inter> (- {c}) \<times> (- {c}))\<^sup>*)"
  using assms
proof (induction rule: rtrancl_induct)
  case base
  then show ?case by simp
next
  case (step y z)
  let ?R' = "R \<inter> (- {c}) \<times> (- {c})"
  show ?case
  proof (cases "z = c")
    case True
    then show ?thesis by simp
  next
    case zc: False
    show ?thesis
    proof (cases "y = c")
      case True
      with step.hyps(2) zc have "(c, z) \<in> R \<and> z \<noteq> c \<and> (z, z) \<in> ?R'\<^sup>*"
        by simp
      then show ?thesis by blast
    next
      case yc: False
      with zc step.hyps(2) have yz: "(y, z) \<in> ?R'"
        by simp
      from step.IH yc consider "(a, y) \<in> ?R'\<^sup>*"
        | nb where "(c, nb) \<in> R" "nb \<noteq> c" "(nb, y) \<in> ?R'\<^sup>*"
        by blast
      then show ?thesis
      proof cases
        case 1
        with yz have "(a, z) \<in> ?R'\<^sup>*"
          by (meson rtrancl.rtrancl_into_rtrancl)
        then show ?thesis by simp
      next
        case 2
        from 2(3) yz have "(nb, z) \<in> ?R'\<^sup>*"
          by (meson rtrancl.rtrancl_into_rtrancl)
        with 2(1,2) show ?thesis by blast
      qed
    qed
  qed
qed

lemma rtrancl_stays_outside:
  assumes "(a, v) \<in> (R \<inter> (- S) \<times> (- S))\<^sup>*"
  shows "a \<in> S \<longrightarrow> v = a" and "a \<notin> S \<longrightarrow> v \<notin> S"
  using assms by (induction rule: rtrancl_induct) auto

lemma restrict_twice:
  "(R \<inter> (- V) \<times> (- V)) \<inter> (- {c}) \<times> (- {c}) = R \<inter> (- insert c V) \<times> (- insert c V)"
  by auto

lemma reach_avoiding_visited:
  assumes "c \<in> V"
  shows "reach_avoiding g V (insert c Q) = reach_avoiding g V Q"
  using assms by (auto simp: reach_avoiding_def)

lemma reach_avoiding_step:
  assumes "c \<notin> V"
  shows "reach_avoiding g V (insert c Q) =
     insert c (reach_avoiding g (insert c V) (Q \<union> {nb. (c, nb) \<in> edge_rel g \<and> nb \<notin> insert c V}))"
    (is "?L = insert c ?R")
proof (intro set_eqI iffI)
  fix v assume "v \<in> ?L"
  then obtain a where a: "a \<in> insert c Q" "a \<notin> V"
      and p: "(a, v) \<in> (edge_rel g \<inter> (- V) \<times> (- V))\<^sup>*"
    by (auto simp: reach_avoiding_def)
  let ?R' = "edge_rel g \<inter> (- insert c V) \<times> (- insert c V)"
  from rtrancl_avoid_or_through[OF p, of c]
  consider "(a, v) \<in> ?R'\<^sup>*" | "v = c"
    | nb where "(c, nb) \<in> edge_rel g \<inter> (- V) \<times> (- V)" "nb \<noteq> c" "(nb, v) \<in> ?R'\<^sup>*"
    unfolding restrict_twice by blast
  then show "v \<in> insert c ?R"
  proof cases
    case 1
    show ?thesis
    proof (cases "a = c")
      case True
      with 1 rtrancl_stays_outside(1)[of c v "edge_rel g" "insert c V"] show ?thesis
        by simp
    next
      case False
      with a 1 show ?thesis
        by (auto simp: reach_avoiding_def)
    qed
  next
    case 2
    then show ?thesis by simp
  next
    case 3
    then have "nb \<in> Q \<union> {nb. (c, nb) \<in> edge_rel g \<and> nb \<notin> insert c V}" "nb \<notin> insert c V"
      by auto
    with 3(3) show ?thesis
      unfolding reach_avoiding_def by blast
  qed
next
  fix v assume v: "v \<in> insert c ?R"
  let ?RV = "edge_rel g \<inter> (- V) \<times> (- V)"
  let ?R' = "edge_rel g \<inter> (- insert c V) \<times> (- insert c V)"
  have mono: "?R'\<^sup>* \<subseteq> ?RV\<^sup>*"
    by (rule rtrancl_mono) auto
  show "v \<in> ?L"
  proof (cases "v = c")
    case True
    with assms show ?thesis
      by (auto simp: reach_avoiding_def)
  next
    case False
    with v obtain a where a: "a \<in> Q \<union> {nb. (c, nb) \<in> edge_rel g \<and> nb \<notin> insert c V}"
        "a \<notin> insert c V" and p: "(a, v) \<in> ?R'\<^sup>*"
      by (auto simp: reach_avoiding_def)
    from p mono have p': "(a, v) \<in> ?RV\<^sup>*"
      by blast
    show ?thesis
    proof (cases "a \<in> Q")
      case True
      with a(2) p' show ?thesis
        unfolding reach_avoiding_def by blast
    next
      case False
      with a assms have "(c, a) \<in> ?RV"
        by auto
      with p' have "(c, v) \<in> ?RV\<^sup>*"
        by (meson converse_rtrancl_into_rtrancl)
      with assms show ?thesis
        unfolding reach_avoiding_def by blast
    qed
  qed
qed

lemma set_set_add: "set (set_add xs x) = insert x (set xs)"
  by (auto simp: set_add_def)

lemma distinct_set_add: "distinct xs \<Longrightarrow> distinct (set_add xs x)"
  by (auto simp: set_add_def)

lemma bfs_allReachable:
  "set (snd (bfs g queue visited allReachable)) =
     set allReachable \<union> reach_avoiding g (set visited) (set queue)"
proof (induction g queue visited allReachable rule: bfs.induct)
  case (1 g visited allReachable)
  show ?case by (simp add: reach_avoiding_def)
next
  case (2 g current queue visited allReachable)
  show ?case
  proof (cases "current \<in> set visited")
    case True
    with 2(1) show ?thesis
      by (simp add: reach_avoiding_visited)
  next
    case False
    let ?q' = "queue @ filter (\<lambda>neighbor. neighbor \<notin> set (set_add visited current))
                        (graph_outNeighbors g current)"
    have q: "set (queue @ filter (\<lambda>neighbor. neighbor \<notin> insert current (set visited))
                        (graph_outNeighbors g current))
        = set queue \<union> {nb. (current, nb) \<in> edge_rel g \<and> nb \<notin> insert current (set visited)}"
      by (auto simp: outNeighbors_iff)
    from 2(2)[OF False] False
    have "set (snd (bfs g (current # queue) visited allReachable)) =
       set (set_add allReachable current)
       \<union> reach_avoiding g (set (set_add visited current)) (set ?q')"
      by simp
    also have "\<dots> = set allReachable \<union> insert current
       (reach_avoiding g (insert current (set visited))
          (set queue \<union> {nb. (current, nb) \<in> edge_rel g \<and> nb \<notin> insert current (set visited)}))"
      by (simp only: set_set_add q) blast
    also have "\<dots> = set allReachable \<union> reach_avoiding g (set visited) (insert current (set queue))"
      using reach_avoiding_step[OF False, of g "set queue"] by simp
    finally show ?thesis by simp
  qed
qed

lemma bfs_distinct:
  "distinct allReachable \<Longrightarrow> distinct (snd (bfs g queue visited allReachable))"
  by (induction g queue visited allReachable rule: bfs.induct) (auto simp: distinct_set_add)

lemma reach_from_neighbors:
  "reach_avoiding g {N} {nb. (N, nb) \<in> edge_rel g} = {v. (N, v) \<in> (edge_rel g)\<^sup>+ \<and> v \<noteq> N}"
proof (intro set_eqI iffI)
  fix v assume "v \<in> reach_avoiding g {N} {nb. (N, nb) \<in> edge_rel g}"
  then obtain a where a: "(N, a) \<in> edge_rel g" "a \<noteq> N"
      and p: "(a, v) \<in> (edge_rel g \<inter> (- {N}) \<times> (- {N}))\<^sup>*"
    by (auto simp: reach_avoiding_def)
  have "(edge_rel g \<inter> (- {N}) \<times> (- {N}))\<^sup>* \<subseteq> (edge_rel g)\<^sup>*"
    by (rule rtrancl_mono) auto
  with p have "(a, v) \<in> (edge_rel g)\<^sup>*" by blast
  with a(1) have "(N, v) \<in> (edge_rel g)\<^sup>+"
    by (rule rtrancl_into_trancl2)
  moreover have "v \<noteq> N"
    using rtrancl_stays_outside(2)[OF p] a(2) by simp
  ultimately show "v \<in> {v. (N, v) \<in> (edge_rel g)\<^sup>+ \<and> v \<noteq> N}" by simp
next
  fix v assume "v \<in> {v. (N, v) \<in> (edge_rel g)\<^sup>+ \<and> v \<noteq> N}"
  then have p: "(N, v) \<in> (edge_rel g)\<^sup>*" and v: "v \<noteq> N"
    by (simp_all add: trancl_into_rtrancl)
  from rtrancl_avoid_or_through[OF p, of N] v
  consider "(N, v) \<in> (edge_rel g \<inter> (- {N}) \<times> (- {N}))\<^sup>*"
    | nb where "(N, nb) \<in> edge_rel g" "nb \<noteq> N" "(nb, v) \<in> (edge_rel g \<inter> (- {N}) \<times> (- {N}))\<^sup>*"
    by blast
  then show "v \<in> reach_avoiding g {N} {nb. (N, nb) \<in> edge_rel g}"
  proof cases
    case 1
    with rtrancl_stays_outside(1)[OF 1] v show ?thesis by simp
  next
    case 2
    then show ?thesis
      unfolding reach_avoiding_def by blast
  qed
qed

lemma edge_target_stored:
  assumes "store_ok g" and "(m, k) \<in> edge_rel g"
  shows "\<exists>n. graph_getNodeAttributes g k = Some n"
proof -
  from assms(2) obtain key e where "(key, e) \<in> set (g_edges g)" "target e = k"
    by (auto simp: edge_rel_def)
  with assms(1) have "k \<in> fst ` set (g_nodes g)"
    by (auto simp: store_ok_iff)
  then have "map_of (g_nodes g) k \<noteq> None"
    by (simp add: map_of_eq_None_iff)
  then show ?thesis
    by (auto simp: graph_getNodeAttributes_def)
qed

lemma trancl_last_edge: "(a, k) \<in> R\<^sup>+ \<Longrightarrow> \<exists>m. (m, k) \<in> R"
  by (erule tranclE) auto

lemma impact_sets:
  assumes "graph_hasNode g N"
  shows "\<exists>A. getImpactAnalysis g N =
       \<lparr> directImpact = List.map_filter (graph_getNodeAttributes g) (graph_outNeighbors g N),
         indirectImpact = List.map_filter (graph_getNodeAttributes g)
            (filter (\<lambda>reachableId. \<not> list_ex (\<lambda>n. node_id n = reachableId)
                        (List.map_filter (graph_getNodeAttributes g) (graph_outNeighbors g N))) A),
         totalReach = length A \<rparr>
     \<and> distinct A
     \<and> set A = {k. (N, k) \<in> edge_rel g} \<union> {k. (N, k) \<in> (edge_rel g)\<^sup>+ \<and> k \<noteq> N}"
proof -
  let ?nb = "graph_outNeighbors g N"
  let ?A = "snd (bfs g ?nb [N] ?nb)"
  have nb: "set ?nb = {k. (N, k) \<in> edge_rel g}"
    by (auto simp: outNeighbors_iff)
  have "getImpactAnalysis g N =
       \<lparr> directImpact = List.map_filter (graph_getNodeAttributes g) ?nb,
         indirectImpact = List.map_filter (graph_getNodeAttributes g)
            (filter (\<lambda>reachableId. \<not> list_ex (\<lambda>n. node_id n = reachableId)
                        (List.map_filter (graph_getNodeAttributes g) ?nb)) ?A),
         totalReach = length ?A \<rparr>"
    using assms by (simp add: getImpactAnalysis_def Let_def case_prod_unfold)
  moreover have "distinct ?A"
    by (rule bfs_distinct) (rule distinct_outNeighbors)
  moreover have "set ?A = {k. (N, k) \<in> edge_rel g} \<union> {k. (N, k) \<in> (edge_rel g)\<^sup>+ \<and> k \<noteq> N}"
    using bfs_allReachable[of g ?nb "[N]" ?nb] reach_from_neighbors[of g N]
    by (simp add: nb)
  ultimately show ?thesis by blast
qed

text \<open>
  Claim C5, as the code has it. For every graph in which every node is stored under its
  own id (\<open>store_ok\<close>) and every node id N present in it: \<open>directImpact\<close> is the set of
  the nodes that an edge from N leads to; \<open>indirectImpact\<close> is the set of the nodes other
  than N itself that a path of edges reaches from one of those out-neighbours, minus the
  direct set; \<open>totalReach\<close> is the size of the union of the two sets. On the graph
  n1 -> n2, n2 -> n3, n1 -> n4 the analysis of n1 gives the direct impact n2, n4, the
  indirect impact n3 and the total reach 3.
\<close>

theorem impact_analysis:
  assumes "store_ok g" and "graph_hasNode g N"
  shows "set (directImpact (getImpactAnalysis g N)) =
       {n. \<exists>k. (N, k) \<in> edge_rel g \<and> adapter_getNode g k = Some n}
   \<and> set (indirectImpact (getImpactAnalysis g N)) =
       {n. \<exists>a k. (N, a) \<in> edge_rel g \<and> (a, k) \<in> (edge_rel g)\<^sup>* \<and> k \<noteq> N
              \<and> adapter_getNode g k = Some n}
       - set (directImpact (getImpactAnalysis g N))
   \<and> totalReach (getImpactAnalysis g N) =
       card (set (directImpact (getImpactAnalysis g N)) \<union> set (indirectImpact (getImpactAnalysis g N)))
   \<and> getImpactAnalysis graph_scenario5 ''n1'' =
       \<lparr> directImpact = [node_n2, node_n4], indirectImpact = [node_n3], totalReach = 3 \<rparr>"
proof -
  let ?at = "graph_getNodeAttributes g"
  let ?E = "edge_rel g"
  let ?nb = "graph_outNeighbors g N"
  let ?D = "List.map_filter ?at ?nb"
  from impact_sets[OF assms(2)] obtain A where
    r: "getImpactAnalysis g N =
       \<lparr> directImpact = ?D,
         indirectImpact = List.map_filter ?at
            (filter (\<lambda>reachableId. \<not> list_ex (\<lambda>n. node_id n = reachableId) ?D) A),
         totalReach = length A \<rparr>"
    and dA: "distinct A"
    and sA: "set A = {k. (N, k) \<in> ?E} \<union> {k. (N, k) \<in> ?E\<^sup>+ \<and> k \<noteq> N}"
    by blast
  have at: "adapter_getNode g k = ?at k" for k
    by (simp add: getNode_eq graph_getNodeAttributes_def)
  have key: "node_id n = k" if "?at k = Some n" for k n
    using stored_node_id[OF assms(1) that] .
  have stored: "\<exists>n. ?at k = Some n" if "k \<in> set A" for k
  proof -
    from that sA have "(N, k) \<in> ?E \<or> (N, k) \<in> ?E\<^sup>+" by auto
    then obtain m where "(m, k) \<in> ?E"
      using trancl_last_edge[of N k ?E] by blast
    then show ?thesis by (rule edge_target_stored[OF assms(1)])
  qed
  have D: "set ?D = {n. \<exists>k. (N, k) \<in> ?E \<and> ?at k = Some n}"
  proof (intro set_eqI iffI)
    fix n assume "n \<in> set ?D"
    then obtain k where "k \<in> set ?nb" "?at k = Some n"
      unfolding set_map_filter_iff by blast
    then show "n \<in> {n. \<exists>k. (N, k) \<in> ?E \<and> ?at k = Some n}"
      unfolding outNeighbors_iff by blast
  next
    fix n assume "n \<in> {n. \<exists>k. (N, k) \<in> ?E \<and> ?at k = Some n}"
    then obtain k where "k \<in> set ?nb" "?at k = Some n"
      unfolding outNeighbors_iff by blast
    then show "n \<in> set ?D"
      unfolding set_map_filter_iff by blast
  qed
  have inD: "list_ex (\<lambda>n. node_id n = rid) ?D \<longleftrightarrow> (N, rid) \<in> ?E" for rid
  proof
    assume "list_ex (\<lambda>n. node_id n = rid) ?D"
    then obtain n where "n \<in> set ?D" "node_id n = rid"
      by (auto simp: list_ex_iff)
    with D key show "(N, rid) \<in> ?E" by auto
  next
    assume e: "(N, rid) \<in> ?E"
    then obtain n where n: "?at rid = Some n"
      using edge_target_stored[OF assms(1)] by blast
    with e D key[OF n] show "list_ex (\<lambda>n. node_id n = rid) ?D"
      by (auto simp: list_ex_iff)
  qed
  have dir: "directImpact (getImpactAnalysis g N) = ?D"
    by (simp add: r)
  have ind: "indirectImpact (getImpactAnalysis g N) =
       List.map_filter ?at (filter (\<lambda>rid. (N, rid) \<notin> ?E) A)"
    unfolding r by (simp add: inD)
  have I: "set (indirectImpact (getImpactAnalysis g N)) =
       {n. \<exists>k. (N, k) \<in> ?E\<^sup>+ \<and> k \<noteq> N \<and> (N, k) \<notin> ?E \<and> ?at k = Some n}"
  proof (intro set_eqI iffI)
    fix n assume "n \<in> set (indirectImpact (getImpactAnalysis g N))"
    then obtain k where "k \<in> set A" "(N, k) \<notin> ?E" "?at k = Some n"
      unfolding ind set_map_filter_iff by auto
    with sA show "n \<in> {n. \<exists>k. (N, k) \<in> ?E\<^sup>+ \<and> k \<noteq> N \<and> (N, k) \<notin> ?E \<and> ?at k = Some n}"
      by blast
  next
    fix n assume "n \<in> {n. \<exists>k. (N, k) \<in> ?E\<^sup>+ \<and> k \<noteq> N \<and> (N, k) \<notin> ?E \<and> ?at k = Some n}"
    then obtain k where "(N, k) \<in> ?E\<^sup>+" "k \<noteq> N" "(N, k) \<notin> ?E" "?at k = Some n"
      by blast
    with sA have "k \<in> set (filter (\<lambda>rid. (N, rid) \<notin> ?E) A)" "?at k = Some n"
      by simp_all
    then show "n \<in> set (indirectImpact (getImpactAnalysis g N))"
      unfolding ind set_map_filter_iff by blast
  qed
  have plus: "(N, k) \<in> ?E\<^sup>+ \<longleftrightarrow> (\<exists>a. (N, a) \<in> ?E \<and> (a, k) \<in> ?E\<^sup>*)" for k
    by (auto simp: trancl_unfold_left)
  have 1: "set (directImpact (getImpactAnalysis g N)) =
       {n. \<exists>k. (N, k) \<in> ?E \<and> adapter_getNode g k = Some n}"
    unfolding dir at by (rule D)
  have 2: "set (indirectImpact (getImpactAnalysis g N)) =
       {n. \<exists>a k. (N, a) \<in> ?E \<and> (a, k) \<in> ?E\<^sup>* \<and> k \<noteq> N \<and> adapter_getNode g k = Some n}
       - set (directImpact (getImpactAnalysis g N))"
  proof -
    have "{n. \<exists>k. (N, k) \<in> ?E\<^sup>+ \<and> k \<noteq> N \<and> (N, k) \<notin> ?E \<and> ?at k = Some n}
        = {n. \<exists>k. (N, k) \<in> ?E\<^sup>+ \<and> k \<noteq> N \<and> ?at k = Some n} - set ?D"
    proof (intro set_eqI iffI)
      fix n assume "n \<in> {n. \<exists>k. (N, k) \<in> ?E\<^sup>+ \<and> k \<noteq> N \<and> (N, k) \<notin> ?E \<and> ?at k = Some n}"
      then obtain k where k: "(N, k) \<in> ?E\<^sup>+" "k \<noteq> N" "(N, k) \<notin> ?E" "?at k = Some n"
        by blast
      have "n \<notin> set ?D"
      proof
        assume "n \<in> set ?D"
        then obtain k' where "(N, k') \<in> ?E" "?at k' = Some n"
          unfolding D by blast
        with key[OF k(4)] key[of k' n] k(3) show False by simp
      qed
      with k show "n \<in> {n. \<exists>k. (N, k) \<in> ?E\<^sup>+ \<and> k \<noteq> N \<and> ?at k = Some n} - set ?D"
        by blast
    next
      fix n assume "n \<in> {n. \<exists>k. (N, k) \<in> ?E\<^sup>+ \<and> k \<noteq> N \<and> ?at k = Some n} - set ?D"
      then obtain k where k: "(N, k) \<in> ?E\<^sup>+" "k \<noteq> N" "?at k = Some n" and "n \<notin> set ?D"
        by blast
      then have "(N, k) \<notin> ?E"
        unfolding D by blast
      with k show "n \<in> {n. \<exists>k. (N, k) \<in> ?E\<^sup>+ \<and> k \<noteq> N \<and> (N, k) \<notin> ?E \<and> ?at k = Some n}"
        by blast
    qed
    also have "\<dots> = {n. \<exists>a k. (N, a) \<in> ?E \<and> (a, k) \<in> ?E\<^sup>* \<and> k \<noteq> N \<and> ?at k = Some n} - set ?D"
      unfolding plus by blast
    finally show ?thesis
      unfolding I at dir .
  qed
  have U: "set (directImpact (getImpactAnalysis g N)) \<union> set (indirectImpact (getImpactAnalysis g N))
       = {n. \<exists>k \<in> set A. ?at k = Some n}" (is "?U = ?img")
  proof (intro set_eqI iffI)
    fix n assume "n \<in> ?U"
    then consider k where "(N, k) \<in> ?E" "?at k = Some n"
      | k where "(N, k) \<in> ?E\<^sup>+" "k \<noteq> N" "?at k = Some n"
      unfolding I dir D by blast
    then show "n \<in> ?img"
      using sA by cases blast+
  next
    fix n assume "n \<in> ?img"
    then obtain k where k: "k \<in> set A" "?at k = Some n"
      by blast
    show "n \<in> ?U"
    proof (cases "(N, k) \<in> ?E")
      case True
      with k(2) have "n \<in> set ?D" unfolding D by blast
      then show ?thesis by (simp add: dir)
    next
      case False
      with k sA have "n \<in> {n. \<exists>k. (N, k) \<in> ?E\<^sup>+ \<and> k \<noteq> N \<and> (N, k) \<notin> ?E \<and> ?at k = Some n}"
        by blast
      then show ?thesis unfolding I by simp
    qed
  qed
  have "node_id ` ?img = set A"
  proof (intro set_eqI iffI)
    fix k assume "k \<in> node_id ` ?img"
    then obtain n k' where kn: "k = node_id n" and k': "k' \<in> set A" and a: "?at k' = Some n"
      by blast
    have "k = k'"
      unfolding kn by (rule key[OF a])
    with k' show "k \<in> set A" by (simp only:)
  next
    fix k assume k: "k \<in> set A"
    with stored obtain n where n: "?at k = Some n" by blast
    from k n have "n \<in> ?img" by blast
    then have "node_id n \<in> node_id ` ?img" by (rule imageI)
    with key[OF n] show "k \<in> node_id ` ?img" by simp
  qed
  moreover have "inj_on node_id ?img"
  proof (rule inj_onI)
    fix n n' assume "n \<in> ?img" "n' \<in> ?img" and eq: "node_id n = node_id n'"
    then obtain k k' where a: "?at k = Some n" and b: "?at k' = Some n'"
      by blast
    have "k = node_id n"
      using key[OF a] by (rule sym)
    also have "\<dots> = node_id n'"
      by (rule eq)
    also have "\<dots> = k'"
      by (rule key[OF b])
    finally have "?at k = ?at k'"
      by (rule arg_cong)
    then show "n = n'"
      unfolding a b by (simp only: option.inject)
  qed
  ultimately have "card ?img = card (set A)"
    using card_image[of node_id ?img] by simp
  moreover have "totalReach (getImpactAnalysis g N) = length A"
    by (simp add: r)
  ultimately have 3: "totalReach (getImpactAnalysis g N) = card ?U"
    unfolding U using dA by (simp add: distinct_card)
  have 4: "getImpactAnalysis graph_scenario5 ''n1'' =
       \<lparr> directImpact = [node_n2, node_n4], indirectImpact = [node_n3], totalReach = 3 \<rparr>"
    by code_simp
  show ?thesis
    using 1 2 3 4 by blast
qed

theorem impact_analysis_witness:
  "store_ok graph_scenario5
   \<and> graph_hasNode graph_scenario5 ''n1''
   \<and> set (directImpact (getImpactAnalysis graph_scenario5 ''n1'')) = {node_n2, node_n4}
   \<and> totalReach (getImpactAnalysis graph_scenario5 ''n1'') = 3
   \<and> store_ok graph_cycle
   \<and> graph_hasNode graph_cycle ''c1''
   \<and> totalReach (getImpactAnalysis graph_cycle ''c1'')
       = card (set (directImpact (getImpactAnalysis graph_cycle ''c1''))
               \<union> set (indirectImpact (getImpactAnalysis graph_cycle ''c1'')))"
proof -
  have h1: "store_ok graph_scenario5" and h2: "graph_hasNode graph_scenario5 ''n1''"
    by code_simp+
  have c1: "store_ok graph_cycle" and c2: "graph_hasNode graph_cycle ''c1''"
    by code_simp+
  have "getImpactAnalysis graph_scenario5 ''n1'' =
       \<lparr> directImpact = [node_n2, node_n4], indirectImpact = [node_n3], totalReach = 3 \<rparr>"
    using impact_analysis [OF h1 h2] by (elim conjE)
  then have a: "set (directImpact (getImpactAnalysis graph_scenario5 ''n1'')) = {node_n2, node_n4}"
      "totalReach (getImpactAnalysis graph_scenario5 ''n1'') = 3"
    by simp_all
  have b: "totalReach (getImpactAnalysis graph_cycle ''c1'')
       = card (set (directImpact (getImpactAnalysis graph_cycle ''c1''))
               \<union> set (indirectImpact (getImpactAnalysis graph_cycle ''c1'')))"
    using impact_analysis [OF c1 c2] by (elim conjE)
  from h1 h2 c1 c2 a b show ?thesis
    by (intro conjI)
qed

text \<open>
  Claim C5 as stated fails on a cycle. The graph c1 --then--> e1, e1 --then (policy)--> c1
  is what two \<open>addNode\<close> and two \<open>addEdge\<close> build. e1 is an out-neighbour of c1, and c1
  is an out-neighbour of e1, so c1 is forward-reachable from the out-neighbours of c1 and
  is not in the direct set; yet the indirect impact of c1 is empty and the total reach is
  1, because the traversal starts with the node itself marked visited.
\<close>

theorem impact_analysis_cycle_counterexample:
  "mutate_all graph_new
     [AddNode command_c1, AddNode event_e1, AddEdge then_c1_e1,
      AddEdge \<lparr> source = ''e1'', target = ''c1'', label = Lbl_then_policy \<rparr>] = Inr graph_cycle
   \<and> ''e1'' \<in> set (graph_outNeighbors graph_cycle ''c1'')
   \<and> ''c1'' \<in> set (graph_outNeighbors graph_cycle ''e1'')
   \<and> adapter_getNode graph_cycle ''c1'' = Some command_c1
   \<and> getImpactAnalysis graph_cycle ''c1'' =
       \<lparr> directImpact = [event_e1], indirectImpact = [], totalReach = 1 \<rparr>
   \<and> command_c1 \<notin> set [event_e1]"
  by code_simp

end
